theory Spec2Isabelle
  imports Complex_Main
begin

section \<open>Floating-point values\<close>

text \<open>
  A C++ \<^verbatim>\<open>float\<close> is modelled as a real number or one of the three special values
  (not-a-number and the two infinities).  Rounding is idealised: arithmetic on finite
  values is exact.  Comparisons follow IEEE 754: every ordered comparison with NaN is
  false.
\<close>

datatype flt = NaN | NInf | Fin real | PInf

fun isnan :: "flt \<Rightarrow> bool" where
  "isnan NaN = True"
| "isnan _ = False"

text \<open>\<^verbatim>\<open>a < b\<close> on floats.\<close>

fun fless :: "flt \<Rightarrow> flt \<Rightarrow> bool" where
  "fless NaN _ = False"
| "fless _ NaN = False"
| "fless _ NInf = False"
| "fless NInf _ = True"
| "fless PInf _ = False"
| "fless (Fin a) (Fin b) = (a < b)"
| "fless (Fin a) PInf = True"

text \<open>\<^verbatim>\<open>a <= b\<close> on floats.\<close>

fun fle :: "flt \<Rightarrow> flt \<Rightarrow> bool" where
  "fle NaN _ = False"
| "fle _ NaN = False"
| "fle NInf _ = True"
| "fle _ PInf = True"
| "fle PInf _ = False"
| "fle _ NInf = False"
| "fle (Fin a) (Fin b) = (a \<le> b)"

text \<open>\<^verbatim>\<open>a + b\<close> on floats.\<close>

fun fadd :: "flt \<Rightarrow> flt \<Rightarrow> flt" where
  "fadd NaN _ = NaN"
| "fadd _ NaN = NaN"
| "fadd PInf NInf = NaN"
| "fadd NInf PInf = NaN"
| "fadd PInf _ = PInf"
| "fadd _ PInf = PInf"
| "fadd NInf _ = NInf"
| "fadd _ NInf = NInf"
| "fadd (Fin a) (Fin b) = Fin (a + b)"

text \<open>\<^verbatim>\<open>glm::clamp(x, lo, hi)\<close>, which is \<^verbatim>\<open>min(max(x, lo), hi)\<close>.\<close>

definition clamp :: "real \<Rightarrow> real \<Rightarrow> real \<Rightarrow> real" where
  "clamp x lo hi = min (max x lo) hi"

section \<open>Graph: sampling one grid cell (Graph.cpp, lines 59 to 112)\<close>

text \<open>The global \<^verbatim>\<open>float z_bound = 50.0f\<close>.\<close>

definition z_bound :: real where
  "z_bound = 50"

text \<open>
  The outcome of a call that may throw: \<^verbatim>\<open>expression.value()\<close> of the expression
  library (which is not part of the repository) and the body of the \<^verbatim>\<open>try\<close> block.
\<close>

datatype 'a outcome = Raises | Returns 'a

datatype error =
  UncaughtException | HeapOverflow | OutOfBounds | SignedOverflow | InvalidArgument | OutOfRange

text \<open>
  The statements guarded by \<^verbatim>\<open>try\<close> (lines 66 to 80): comparisons and arithmetic on
  floats, none of which can throw, so the block always returns.  The result is the pair
  (\<^verbatim>\<open>height\<close>, \<^verbatim>\<open>last_height\<close>).  In the last branch \<^verbatim>\<open>z\<close> is finite, since
  it is neither NaN nor beyond the bound.
\<close>

definition try_block :: "flt \<Rightarrow> real \<Rightarrow> (real \<times> real) outcome" where
  "try_block z lh =
     Returns
       (if isnan z then (- 1, lh)
        else if fless z (Fin (- z_bound)) then (- 1, - 1)
        else if fless (Fin z_bound) z then (- 1, lh)
        else (case z of
                Fin r \<Rightarrow> ((r + z_bound) / (z_bound * 2), (r + z_bound) / (z_bound * 2))
              | _ \<Rightarrow> (- 1, lh)))"

text \<open>
  The handler \<^verbatim>\<open>catch (...)\<close> (lines 81 to 84): the triple
  (\<^verbatim>\<open>height\<close>, \<^verbatim>\<open>alpha\<close>, \<^verbatim>\<open>last_height\<close>).
\<close>

definition catch_block :: "real \<Rightarrow> real \<times> real \<times> real" where
  "catch_block lh = (1 / 2, 0, lh)"

text \<open>
  Lines 62 to 84: \<^verbatim>\<open>alpha\<close> starts at 1 and \<^verbatim>\<open>height\<close> at -1; the \<^verbatim>\<open>try\<close>
  block runs, and the handler only if the block throws.
\<close>

definition sample_cell :: "flt \<Rightarrow> real \<Rightarrow> real \<times> real \<times> real" where
  "sample_cell z lh =
     (case try_block z lh of
        Returns (height, lh') \<Rightarrow> (height, 1, lh')
      | Raises \<Rightarrow> catch_block lh)"

text \<open>Lines 91 to 97.\<close>

definition yellowTint :: "real \<Rightarrow> real" where
  "yellowTint height =
     (let t = height * 8 - 38 / 10
      in if t > 1 then 1 else if t < 0 then 0 else t)"

text \<open>Lines 99 to 112: the four colour components pushed for one sample.\<close>

definition vertex_color :: "nat \<Rightarrow> real \<Rightarrow> real \<Rightarrow> real list" where
  "vertex_color sid height alpha =
     (if sid = 1 then [0, 0, 1 - yellowTint height]
      else if sid = 2 then [0, 1 - yellowTint height, 0]
      else [1 - yellowTint height, 0, 0])
     @ [clamp (alpha - 1 / 10) 0 1]"

text \<open>
  The accumulators of the sampling loops: the part of \<^verbatim>\<open>m_heightData\<close> written so
  far (\<^verbatim>\<open>index + 1\<close> entries), the vectors \<^verbatim>\<open>positions\<close> and \<^verbatim>\<open>colors\<close>,
  and \<^verbatim>\<open>last_height\<close>.
\<close>

record sampler =
  heightData :: "real list"
  positions :: "flt list"
  colors :: "real list"
  last_height :: real

text \<open>
  One execution of the inner loop's body at the loop variables \<^verbatim>\<open>x\<close>, \<^verbatim>\<open>y\<close>.
  The expression is evaluated before the \<^verbatim>\<open>try\<close> block is entered (line 61), so an
  exception of the evaluator leaves the constructor.  The counter \<^verbatim>\<open>index\<close> is an
  \<^verbatim>\<open>int\<close>, incremented first (line 59).  \<^verbatim>\<open>m_heightData\<close> has \<open>alloc\<close>
  entries; a write past its end is undefined behaviour, modelled as the error
  \<open>HeapOverflow\<close>.
\<close>

definition sample_step ::
  "(flt \<Rightarrow> flt \<Rightarrow> flt outcome) \<Rightarrow> nat \<Rightarrow> nat \<Rightarrow> flt \<Rightarrow> flt \<Rightarrow> sampler \<Rightarrow> error + sampler" where
  "sample_step ev alloc sid x y s =
     (if \<not> length (heightData s) < 2 ^ 31 then Inl SignedOverflow else
      case ev x y of
        Raises \<Rightarrow> Inl UncaughtException
      | Returns z \<Rightarrow>
          (case sample_cell z (last_height s) of
             (height, alpha, lh) \<Rightarrow>
               if length (heightData s) < alloc then
                 Inr \<lparr>heightData = heightData s @ [height],
                      positions = positions s @
                        [x, Fin (clamp (height * (z_bound * 2) - z_bound) (- z_bound) z_bound), y],
                      colors = colors s @ vertex_color sid height alpha,
                      last_height = lh\<rparr>
               else Inl HeapOverflow))"

section \<open>Machine integers and checked reads\<close>

text \<open>
  \<^verbatim>\<open>unsigned int\<close> is 32 bits wide: a value is a natural number below \<open>2 ^ 32\<close> and
  arithmetic wraps around.
\<close>

definition u32 :: "nat \<Rightarrow> nat" where
  "u32 k = k mod 2 ^ 32"

text \<open>\<^verbatim>\<open>m_dimension - 1\<close> in \<^verbatim>\<open>unsigned int\<close>.\<close>

definition dim_minus_1 :: "nat \<Rightarrow> nat" where
  "dim_minus_1 n = u32 (n + (2 ^ 32 - 1))"

text \<open>
  Reading the element \<open>i\<close> of a vector or array.  A read past the end (or, for
  \<^verbatim>\<open>m_heightData\<close>, past the part that was written) is undefined behaviour, modelled
  as the error \<open>OutOfBounds\<close>.
\<close>

definition rd :: "'a list \<Rightarrow> nat \<Rightarrow> error + 'a" where
  "rd xs i = (if i < length xs then Inr (xs ! i) else Inl OutOfBounds)"

text \<open>Sequencing: the first error ends the computation.\<close>

definition and_then :: "error + 'a \<Rightarrow> ('a \<Rightarrow> error + 'b) \<Rightarrow> error + 'b" where
  "and_then m f = (case m of Inl e \<Rightarrow> Inl e | Inr v \<Rightarrow> f v)"

text \<open>
  A counted loop whose body pushes values to the back of a vector: the body runs for each
  counter value in order, and the pushed values are collected.
\<close>

fun collect :: "('a \<Rightarrow> error + 'b list) \<Rightarrow> 'a list \<Rightarrow> error + 'b list" where
  "collect f [] = Inr []"
| "collect f (x # xs) =
     and_then (f x) (\<lambda>ys. and_then (collect f xs) (\<lambda>zs. Inr (ys @ zs)))"

text \<open>Reading several elements, one after the other.\<close>

definition rds :: "'a list \<Rightarrow> nat list \<Rightarrow> error + 'a list" where
  "rds xs js = collect (\<lambda>j. and_then (rd xs j) (\<lambda>v. Inr [v])) js"

section \<open>Graph::calculateNormals (Graph.cpp, lines 237 to 297)\<close>

type_synonym vec3 = "real \<times> real \<times> real"

text \<open>\<^verbatim>\<open>glm::cross\<close> and \<^verbatim>\<open>glm::normalize\<close> of the vector library.\<close>

definition cross :: "vec3 \<Rightarrow> vec3 \<Rightarrow> vec3" where
  "cross a b =
     (case a of (ax, ay, az) \<Rightarrow>
        (case b of (bx, by, bz) \<Rightarrow>
           (ay * bz - by * az, az * bx - bz * ax, ax * by - bx * ay)))"

definition normalize_vec :: "vec3 \<Rightarrow> vec3" where
  "normalize_vec v =
     (case v of (vx, vy, vz) \<Rightarrow>
        (let l = sqrt (vx * vx + vy * vy + vz * vz) in (vx / l, vy / l, vz / l)))"

text \<open>A stored height back in world units: \<^verbatim>\<open>(p * (z_bound * 2)) - z_bound\<close>.\<close>

definition world_z :: "real \<Rightarrow> real" where
  "world_z p = p * (z_bound * 2) - z_bound"

text \<open>\<^verbatim>\<open>(b - a) / (2 * 10.0 / (m_dimension - 1.0))\<close>.\<close>

definition central_difference :: "nat \<Rightarrow> real \<Rightarrow> real \<Rightarrow> real" where
  "central_difference n a b = (b - a) / (2 * 10 / (real n - 1))"

text \<open>The body of the inner loop: the three floats pushed for the vertex \<open>(x, y)\<close>.\<close>

definition normal_at :: "nat \<Rightarrow> real list \<Rightarrow> nat \<Rightarrow> nat \<Rightarrow> error + real list" where
  "normal_at n h y x =
     (if x = 0 \<or> x \<ge> dim_minus_1 n \<or> y = 0 \<or> y \<ge> dim_minus_1 n then Inr [0, 0, 0]
      else
        and_then (rd h (u32 ((x - 1) + y * n))) (\<lambda>leftPoint.
        and_then (rd h (u32 ((x + 1) + y * n))) (\<lambda>rightPoint.
          if leftPoint < 0 \<or> rightPoint < 0 then Inr [0, 0, 0]
          else
            and_then (rd h (u32 (x + (y - 1) * n))) (\<lambda>downPoint.
            and_then (rd h (u32 (x + (y + 1) * n))) (\<lambda>upPoint.
              if downPoint < 0 \<or> upPoint < 0 then Inr [0, 0, 0]
              else
                (let partial_x = central_difference n (world_z leftPoint) (world_z rightPoint);
                     partial_y = central_difference n (world_z downPoint) (world_z upPoint);
                     vector_x = (1, partial_x, 0);
                     vector_y = (0, partial_y, 1)
                 in case normalize_vec (cross vector_y vector_x) of
                      (nx, ny, nz) \<Rightarrow> Inr [nx, ny, nz]))))))"

definition calculateNormals :: "nat \<Rightarrow> real list \<Rightarrow> error + real list" where
  "calculateNormals n h = collect (\<lambda>y. collect (normal_at n h y) [0..<n]) [0..<n]"

section \<open>Graph::updateBuffers (Graph.cpp, lines 176 to 235)\<close>

text \<open>
  An index computed in \<^verbatim>\<open>int\<close>: signed overflow is undefined behaviour, modelled as an
  error.
\<close>

definition int_index :: "nat \<Rightarrow> error + nat" where
  "int_index k = (if k < 2 ^ 31 then Inr k else Inl SignedOverflow)"

text \<open>The twelve floats pushed to the vertex buffer for the vertex \<open>i\<close>.\<close>

definition vertex_record :: "flt list \<Rightarrow> real list \<Rightarrow> real list \<Rightarrow> nat \<Rightarrow> error + flt list" where
  "vertex_record ps ns cs i =
     and_then (int_index (i * 3 + 2)) (\<lambda>_.
     and_then (rds ps [i * 3, i * 3 + 1, i * 3 + 2]) (\<lambda>p.
     and_then (rds ns [i * 3, i * 3 + 1, i * 3 + 2]) (\<lambda>nrm.
     and_then (int_index (i * 4 + 3)) (\<lambda>_.
     and_then (rds cs [i * 4, i * 4 + 1, i * 4 + 2, i * 4 + 3]) (\<lambda>c.
       Inr (p @ map Fin nrm @ map Fin c @ [Fin 0, Fin 0]))))))"

text \<open>
  The validity test of one candidate triangle: \<^verbatim>\<open>&&\<close> reads its right operand only
  when the left one holds.
\<close>

definition corners_valid :: "real list \<Rightarrow> nat \<Rightarrow> nat \<Rightarrow> nat \<Rightarrow> error + bool" where
  "corners_valid h a b c =
     and_then (rd h a) (\<lambda>va.
       if \<not> va \<ge> 0 then Inr False
       else and_then (rd h b) (\<lambda>vb.
         if \<not> vb \<ge> 0 then Inr False
         else and_then (rd h c) (\<lambda>vc. Inr (vc \<ge> 0))))"

text \<open>The indices pushed to the index buffer for the grid cell \<open>(x, y)\<close>.\<close>

definition cell_indices :: "nat \<Rightarrow> real list \<Rightarrow> nat \<Rightarrow> nat \<Rightarrow> error + nat list" where
  "cell_indices n h y x =
     (let curr = u32 (x + y * n) in
        and_then (corners_valid h curr (u32 (curr + 1)) (u32 (curr + n))) (\<lambda>t1.
        and_then (corners_valid h (u32 (curr + n + 1)) (u32 (curr + 1)) (u32 (curr + n))) (\<lambda>t2.
          Inr ((if t1 then [curr, u32 (curr + 1), u32 (curr + n)] else []) @
               (if t2 then [u32 (curr + 1), u32 (curr + n + 1), u32 (curr + n)] else [])))))"

definition build_VBO :: "flt list \<Rightarrow> real list \<Rightarrow> real list \<Rightarrow> error + flt list" where
  "build_VBO ps ns cs = collect (vertex_record ps ns cs) [0..<length ps div 3]"

definition build_IBO :: "nat \<Rightarrow> real list \<Rightarrow> error + nat list" where
  "build_IBO n h =
     collect (\<lambda>y. collect (cell_indices n h y) [0..<dim_minus_1 n]) [0..<dim_minus_1 n]"

definition updateBuffers ::
  "nat \<Rightarrow> real list \<Rightarrow> flt list \<Rightarrow> real list \<Rightarrow> real list \<Rightarrow> error + flt list \<times> nat list" where
  "updateBuffers n h ps ns cs =
     and_then (build_VBO ps ns cs) (\<lambda>VBO.
     and_then (build_IBO n h) (\<lambda>IBO. Inr (VBO, IBO)))"

text \<open>The index buffer read three entries at a time: one triangle per group.\<close>

fun triangles :: "nat list \<Rightarrow> (nat \<times> nat \<times> nat) list" where
  "triangles (a # b # c # rest) = (a, b, c) # triangles rest"
| "triangles _ = []"

section \<open>Graph::Graph: the sampling loops and the constructor (Graph.cpp, lines 22 to 147)\<close>

text \<open>
  Both loops update their variable, a \<^verbatim>\<open>float\<close>, with
  \<^verbatim>\<open>v += 10.0 / (dimension - 1.0)\<close>: the quotient and the sum are computed in
  \<^verbatim>\<open>double\<close>, and the sum is rounded to \<^verbatim>\<open>float\<close> when it is stored.  What
  the update stores is a parameter of the loops and of the constructor, as the rounding
  is that of the machine: \<open>advance dimension v\<close> is the value of the variable after
  the update when it held \<open>v\<close> before.  The loops below take the update of their
  dimension, \<open>step = advance dimension\<close>.

  \<open>grid_step\<close> is the increment as a real number (a division by zero gives infinity
  for the dimension 1, and the dimension 0 gives -10), and \<open>exact_advance\<close> is the
  update that adds it with no rounding at all; what the machine stores is that sum,
  rounded.
\<close>

definition grid_step :: "nat \<Rightarrow> flt" where
  "grid_step n = (if n = 1 then PInf else Fin (10 / (real n - 1)))"

definition exact_advance :: "nat \<Rightarrow> flt \<Rightarrow> flt" where
  "exact_advance n v = fadd v (grid_step n)"

lemma sample_step_length:
  "sample_step ev alloc sid x y s = Inr s' \<Longrightarrow>
     length (heightData s') = Suc (length (heightData s)) \<and> length (heightData s) < alloc"
  by (auto simp: sample_step_def split: outcome.splits prod.splits if_splits)

text \<open>
  The inner loop \<^verbatim>\<open>for (x = -5.0; x <= 5.001; x += 10.0 / (dimension - 1.0))\<close>,
  entered with the loop variable at \<open>x\<close>.  The guard compares in \<^verbatim>\<open>double\<close>; no
  \<^verbatim>\<open>float\<close> lies between 5.001 and the \<^verbatim>\<open>double\<close> nearest to it, so the guard
  holds of the variable exactly when its value is at most 5.001.  The loop ends because
  every pass writes one more entry of \<^verbatim>\<open>m_heightData\<close>, and a write past the end
  ends the run.
\<close>

function x_loop ::
  "(flt \<Rightarrow> flt \<Rightarrow> flt outcome) \<Rightarrow> nat \<Rightarrow> nat \<Rightarrow> (flt \<Rightarrow> flt) \<Rightarrow> flt \<Rightarrow> flt \<Rightarrow> sampler \<Rightarrow>
     error + sampler" where
  "x_loop ev alloc sid step y x s =
     (if fle x (Fin (5001 / 1000)) then
        (case sample_step ev alloc sid x y s of
           Inl e \<Rightarrow> Inl e
         | Inr s' \<Rightarrow> x_loop ev alloc sid step y (step x) s')
      else Inr s)"
  by pat_completeness auto
termination
  by (relation "measure (\<lambda>(ev, alloc, sid, step, y, x, s). alloc - length (heightData s))")
     (auto dest: sample_step_length)

declare x_loop.simps [simp del]

lemma x_loop_length:
  "x_loop ev alloc sid step y x s = Inr s' \<Longrightarrow>
     length (heightData s) \<le> length (heightData s') \<and>
     (\<not> fle x (Fin (5001 / 1000)) \<longrightarrow> s' = s) \<and>
     (fle x (Fin (5001 / 1000)) \<longrightarrow>
        length (heightData s) < length (heightData s') \<and> length (heightData s') \<le> alloc)"
proof (induction ev alloc sid step y x s rule: x_loop.induct)
  case (1 ev alloc sid step y x s)
  show ?case
  proof (cases "fle x (Fin (5001 / 1000))")
    case False
    with "1.prems" show ?thesis by (simp add: x_loop.simps)
  next
    case True
    with "1.prems" obtain s1 where s1: "sample_step ev alloc sid x y s = Inr s1"
      and rest: "x_loop ev alloc sid step y (step x) s1 = Inr s'"
      by (auto simp: x_loop.simps [of ev alloc sid step y x s] split: sum.splits)
    from "1.IH" [OF True s1 rest] sample_step_length [OF s1] True
    show ?thesis by (cases "fle (step x) (Fin (5001 / 1000))") auto
  qed
qed

text \<open>
  The outer loop \<^verbatim>\<open>for (y = -5.0; y <= 5.001; y += 10.0 / (dimension - 1.0))\<close>.
\<close>

function y_loop ::
  "(flt \<Rightarrow> flt \<Rightarrow> flt outcome) \<Rightarrow> nat \<Rightarrow> nat \<Rightarrow> (flt \<Rightarrow> flt) \<Rightarrow> flt \<Rightarrow> sampler \<Rightarrow>
     error + sampler" where
  "y_loop ev alloc sid step y s =
     (if fle y (Fin (5001 / 1000)) then
        (case x_loop ev alloc sid step y (Fin (- 5)) s of
           Inl e \<Rightarrow> Inl e
         | Inr s' \<Rightarrow> y_loop ev alloc sid step (step y) s')
      else Inr s)"
  by pat_completeness auto
termination
  by (relation "measure (\<lambda>(ev, alloc, sid, step, y, s). alloc - length (heightData s))")
     (auto dest!: x_loop_length)

declare y_loop.simps [simp del]

text \<open>The members of a \<^verbatim>\<open>Graph\<close> that the mesh depends on.\<close>

record graph =
  m_dimension :: nat
  m_heightData :: "real list"
  m_positions :: "flt list"
  m_colors :: "real list"
  m_normals :: "real list"
  m_VBO :: "flt list"
  m_IBO :: "nat list"

text \<open>
  The constructor.  The expression library is not part of the repository: \<open>compile\<close>
  stands for \<^verbatim>\<open>parser.compile(equation, expression)\<close>, which returns whether the
  equation compiled and leaves an expression object, and the expression object is the
  function that \<^verbatim>\<open>expression.value()\<close> computes from the variables \<^verbatim>\<open>x\<close> and
  \<^verbatim>\<open>y\<close>.  The constructor does not look at the flag that \<open>compile\<close> returns (line
  47).  \<^verbatim>\<open>new float[dimension * dimension]\<close> multiplies in \<^verbatim>\<open>unsigned int\<close>.  The
  export of the height map to an image file (lines 119 to 143) does not change the mesh
  and is left out.
\<close>

definition Graph_ctor ::
  "(nat \<Rightarrow> flt \<Rightarrow> flt) \<Rightarrow> (string \<Rightarrow> bool \<times> (flt \<Rightarrow> flt \<Rightarrow> flt outcome)) \<Rightarrow> string \<Rightarrow> nat \<Rightarrow> nat \<Rightarrow>
     error + graph" where
  "Graph_ctor advance compile equation dimension sid =
     (case compile equation of
        (compiled, expression) \<Rightarrow>
          and_then
            (y_loop expression (u32 (dimension * dimension)) sid (advance dimension) (Fin (- 5))
               \<lparr>heightData = [], positions = [], colors = [], last_height = 1 / 2\<rparr>)
            (\<lambda>s.
          and_then (calculateNormals dimension (heightData s)) (\<lambda>normals.
          and_then (updateBuffers dimension (heightData s) (positions s) normals (colors s))
            (\<lambda>(VBO, IBO).
               Inr \<lparr>m_dimension = dimension, m_heightData = heightData s,
                    m_positions = positions s, m_colors = colors s, m_normals = normals,
                    m_VBO = VBO, m_IBO = IBO\<rparr>))))"

section \<open>OBJModel: strings and numbers\<close>

text \<open>\<^verbatim>\<open>std::isspace\<close> in the C locale.\<close>

definition is_space :: "char \<Rightarrow> bool" where
  "is_space c = (c \<in> set [CHR '' '', CHR 0x09, CHR 0x0A, CHR 0x0B, CHR 0x0C, CHR 0x0D])"

text \<open>
  The chunks that \<^verbatim>\<open>stream >> chunk\<close> reads from a line: the maximal runs of
  characters that are not white space.  \<open>cur\<close> is the chunk being read.
\<close>

fun chunks_from :: "string \<Rightarrow> string \<Rightarrow> string list" where
  "chunks_from cur [] = (if cur = [] then [] else [cur])"
| "chunks_from cur (c # cs) =
     (if is_space c then (if cur = [] then chunks_from [] cs else cur # chunks_from [] cs)
      else chunks_from (cur @ [c]) cs)"

definition chunks :: "string \<Rightarrow> string list" where
  "chunks line = chunks_from [] line"

text \<open>
  \<^verbatim>\<open>s.find(c)\<close> stored in an \<^verbatim>\<open>int\<close>: the position of the first occurrence, and -1
  (the conversion of \<^verbatim>\<open>npos\<close>) when there is none.
\<close>

definition find_char :: "char \<Rightarrow> string \<Rightarrow> int" where
  "find_char c s =
     (if c \<in> set s then int (length (takeWhile (\<lambda>d. d \<noteq> c) s)) else - 1)"

text \<open>
  \<^verbatim>\<open>s.substr(pos, count)\<close> with the count given as an \<^verbatim>\<open>int\<close>: a negative count
  converts to a huge \<^verbatim>\<open>size_t\<close>, which selects the rest of the string.  Every call of
  the source has \<open>pos\<close> at most the length of \<open>s\<close>.
\<close>

definition substr :: "string \<Rightarrow> nat \<Rightarrow> int \<Rightarrow> string" where
  "substr s pos count = (if count < 0 then drop pos s else take (nat count) (drop pos s))"

text \<open>Lines 45 to 49: the text of a line before its first \<^verbatim>\<open>#\<close>.\<close>

definition strip_comment :: "string \<Rightarrow> string" where
  "strip_comment line =
     (let index = find_char (CHR ''#'') line
      in if index \<noteq> - 1 then substr line 0 index else line)"

text \<open>The value of a decimal digit, from its character code (\<^verbatim>\<open>'0'\<close> is 48).\<close>

definition digit_of :: "char \<Rightarrow> nat option" where
  "digit_of c =
     (let k = (of_char c :: nat) in if 48 \<le> k \<and> k \<le> 57 then Some (k - 48) else None)"

text \<open>The value of the leading decimal digits of a string, after the value \<open>acc\<close>.\<close>

fun decimal :: "nat \<Rightarrow> string \<Rightarrow> nat" where
  "decimal acc [] = acc"
| "decimal acc (c # cs) =
     (case digit_of c of None \<Rightarrow> acc | Some d \<Rightarrow> decimal (acc * 10 + d) cs)"

text \<open>
  \<^verbatim>\<open>std::stoi\<close>: leading white space, an optional sign, decimal digits; what follows
  the digits is ignored.  It throws \<^verbatim>\<open>std::invalid_argument\<close> when there is no digit
  and \<^verbatim>\<open>std::out_of_range\<close> when the value does not fit an \<^verbatim>\<open>int\<close>; the
  constructor catches neither.
\<close>

definition stoi :: "string \<Rightarrow> error + int" where
  "stoi s =
     (let t = dropWhile is_space s;
          neg = (t \<noteq> [] \<and> hd t = CHR ''-'');
          u = (if t \<noteq> [] \<and> (hd t = CHR ''-'' \<or> hd t = CHR ''+'') then tl t else t)
      in if u = [] \<or> digit_of (hd u) = None then Inl InvalidArgument
         else
           (let v = (if neg then - int (decimal 0 u) else int (decimal 0 u))
            in if v < - (2 ^ 31) \<or> 2 ^ 31 - 1 < v then Inl OutOfRange else Inr v))"

text \<open>An \<^verbatim>\<open>int\<close> minus one; the conversion of an \<^verbatim>\<open>int\<close> to \<^verbatim>\<open>unsigned int\<close>.\<close>

definition minus_one :: "int \<Rightarrow> error + int" where
  "minus_one v = (if v = - (2 ^ 31) then Inl SignedOverflow else Inr (v - 1))"

definition to_unsigned :: "int \<Rightarrow> nat" where
  "to_unsigned v = nat (v mod 2 ^ 32)"

section \<open>OBJModel::OBJModel: the parser (OBJModel.cpp, lines 30 to 127)\<close>

text \<open>
  Lines 79 to 97: one chunk of a face line.  The three values pushed to \<^verbatim>\<open>Faces\<close>, a
  vector of \<^verbatim>\<open>unsigned int\<close>: the position index, the texture index (-1 when the
  chunk has none) and the normal index.
\<close>

definition face_chunk :: "string \<Rightarrow> error + nat list" where
  "face_chunk chunk =
     (let slashesIndex = find_char (CHR ''/'') chunk in
      and_then (and_then (stoi (substr chunk 0 slashesIndex)) minus_one) (\<lambda>vertIndex.
        (let slashesIndex2 =
               find_char (CHR ''/'') (substr chunk (nat (slashesIndex + 1)) (int (length chunk)));
             part2 = substr chunk (nat (slashesIndex + 1)) (int (length chunk))
         in
           and_then
             (if slashesIndex2 > 0
              then and_then (stoi (substr part2 0 slashesIndex2)) minus_one
              else Inr (- 1))
             (\<lambda>textureIndex.
           and_then
             (and_then (stoi (substr part2 (nat (slashesIndex2 + 1)) (int (length chunk))))
                minus_one)
             (\<lambda>normIndex.
                Inr [to_unsigned vertIndex, to_unsigned textureIndex, to_unsigned normIndex])))))"

text \<open>The vectors filled by the parser, and \<^verbatim>\<open>m_MaterialFile\<close>.\<close>

record obj_data =
  Verts :: "flt list"
  VertNorms :: "flt list"
  VertTexts :: "flt list"
  Faces :: "nat list"
  MaterialFile :: string

text \<open>
  Lines 57 to 104: the chunks of one line, with \<^verbatim>\<open>lineType\<close> as set by the first
  chunk.  \<open>stof\<close> stands for \<^verbatim>\<open>std::stof\<close>, which also reads the special values
  (\<^verbatim>\<open>nan\<close>, \<^verbatim>\<open>inf\<close>) and throws on a chunk that is not a number.
\<close>

fun parse_chunks ::
  "(string \<Rightarrow> error + flt) \<Rightarrow> int \<Rightarrow> string list \<Rightarrow> obj_data \<Rightarrow> error + obj_data" where
  "parse_chunks stof lineType [] d = Inr d"
| "parse_chunks stof lineType (chunk # rest) d =
     (if lineType = - 1 then
        (if chunk = ''v'' then parse_chunks stof 0 rest d
         else if chunk = ''vn'' then parse_chunks stof 1 rest d
         else if chunk = ''f'' then parse_chunks stof 2 rest d
         else if chunk = ''vt'' then parse_chunks stof 3 rest d
         else if chunk = ''mtllib'' then parse_chunks stof 4 rest d
         else Inr d)
      else if lineType = 0 then
        and_then (stof chunk) (\<lambda>v. parse_chunks stof lineType rest (d\<lparr>Verts := Verts d @ [v]\<rparr>))
      else if lineType = 1 then
        and_then (stof chunk)
          (\<lambda>v. parse_chunks stof lineType rest (d\<lparr>VertNorms := VertNorms d @ [v]\<rparr>))
      else if lineType = 2 then
        and_then (face_chunk chunk)
          (\<lambda>fs. parse_chunks stof lineType rest (d\<lparr>Faces := Faces d @ fs\<rparr>))
      else if lineType = 3 then
        and_then (stof chunk)
          (\<lambda>v. parse_chunks stof lineType rest (d\<lparr>VertTexts := VertTexts d @ [v]\<rparr>))
      else if lineType = 4 then
        parse_chunks stof lineType rest (d\<lparr>MaterialFile := chunk\<rparr>)
      else parse_chunks stof lineType rest d)"

text \<open>Lines 44 to 105: the lines of the file, in order.\<close>

fun parse_lines ::
  "(string \<Rightarrow> error + flt) \<Rightarrow> string list \<Rightarrow> obj_data \<Rightarrow> error + obj_data" where
  "parse_lines stof [] d = Inr d"
| "parse_lines stof (line # lines) d =
     and_then (parse_chunks stof (- 1) (chunks (strip_comment line)) d) (parse_lines stof lines)"

text \<open>
  Lines 115 to 121: the loop that looks for the last \<^verbatim>\<open>/\<close> of the file name, from
  the back; \<open>scan_back s (i + 1)\<close> is the loop entered with the counter at \<open>i\<close>, and
  the result is the final value of \<^verbatim>\<open>index\<close>.
\<close>

fun scan_back :: "string \<Rightarrow> nat \<Rightarrow> int" where
  "scan_back s 0 = - 1"
| "scan_back s (Suc i) = (if s ! i = CHR ''/'' then int i + 1 else scan_back s i)"

definition dir_index :: "string \<Rightarrow> int" where
  "dir_index fileName = scan_back fileName (length fileName)"

section \<open>OBJModel::populateBuffers (OBJModel.cpp, lines 14 to 27 and 186 to 234)\<close>

record VertexData =
  vd_x :: flt
  vd_y :: flt
  vd_z :: flt
  vd_s :: flt
  vd_t :: flt

text \<open>\<^verbatim>\<open>a == b\<close> on floats: NaN is equal to nothing, itself included.\<close>

fun feq :: "flt \<Rightarrow> flt \<Rightarrow> bool" where
  "feq NaN _ = False"
| "feq _ NaN = False"
| "feq a b = (a = b)"

text \<open>\<^verbatim>\<open>VertexData::operator==\<close>.\<close>

definition vd_eq :: "VertexData \<Rightarrow> VertexData \<Rightarrow> bool" where
  "vd_eq a b =
     (feq (vd_x a) (vd_x b) \<and> feq (vd_y a) (vd_y b) \<and> feq (vd_z a) (vd_z b) \<and>
      feq (vd_s a) (vd_s b) \<and> feq (vd_t a) (vd_t b))"

text \<open>
  \<^verbatim>\<open>std::find(vertices.begin(), vertices.end(), vertex)\<close>: the position of the first
  element equal to \<open>vertex\<close>, and \<open>None\<close> for \<^verbatim>\<open>vertices.end()\<close>.
\<close>

fun find_vertex :: "VertexData list \<Rightarrow> VertexData \<Rightarrow> nat option" where
  "find_vertex [] vertex = None"
| "find_vertex (e # es) vertex =
     (if vd_eq e vertex then Some 0 else map_option Suc (find_vertex es vertex))"

text \<open>
  Lines 193 to 204: the vertex that the face entries \<open>pos\<close> and \<open>text\<close> select; the
  index arithmetic is in \<^verbatim>\<open>unsigned int\<close>.
\<close>

definition face_vertex :: "flt list \<Rightarrow> flt list \<Rightarrow> nat \<Rightarrow> nat \<Rightarrow> error + VertexData" where
  "face_vertex verts texts pos text =
     and_then (rd verts (u32 (pos * 3))) (\<lambda>x.
     and_then (rd verts (u32 (pos * 3 + 1))) (\<lambda>y.
     and_then (rd verts (u32 (pos * 3 + 2))) (\<lambda>z.
     and_then (rd texts (u32 (text * 2))) (\<lambda>s.
     and_then (rd texts (u32 (text * 2 + 1))) (\<lambda>t.
       Inr \<lparr>vd_x = x, vd_y = y, vd_z = z, vd_s = s, vd_t = t\<rparr>)))))"

text \<open>The twelve floats pushed to the vertex buffer for a new vertex (lines 209 to 220).\<close>

definition vertex_floats :: "VertexData \<Rightarrow> flt list" where
  "vertex_floats v =
     [vd_x v, vd_y v, vd_z v, Fin 0, Fin 0, Fin 0, Fin 1, Fin 1, Fin 1, Fin 1, vd_s v, vd_t v]"

text \<open>
  The loop of lines 192 to 230 over the remaining entries of \<^verbatim>\<open>m_Faces\<close>, three at a
  time, with the vectors \<^verbatim>\<open>VBO\<close>, \<^verbatim>\<open>IBO\<close> and \<^verbatim>\<open>vertices\<close> as accumulators.
  An index pushed to \<^verbatim>\<open>IBO\<close> is converted to \<^verbatim>\<open>unsigned int\<close>.
\<close>

fun populate_loop ::
  "flt list \<Rightarrow> flt list \<Rightarrow> nat list \<Rightarrow> flt list \<times> nat list \<times> VertexData list \<Rightarrow>
     error + flt list \<times> nat list \<times> VertexData list" where
  "populate_loop verts texts [] acc = Inr acc"
| "populate_loop verts texts (pos # text # nrm # faces) (VBO, IBO, vertices) =
     and_then (face_vertex verts texts pos text) (\<lambda>vertex.
       (case find_vertex vertices vertex of
          None \<Rightarrow>
            populate_loop verts texts faces
              (VBO @ vertex_floats vertex, IBO @ [u32 (length vertices)], vertices @ [vertex])
        | Some ind \<Rightarrow> populate_loop verts texts faces (VBO, IBO @ [u32 ind], vertices)))"
| "populate_loop verts texts _ acc = Inl OutOfBounds"

definition populateBuffers :: "flt list \<Rightarrow> flt list \<Rightarrow> nat list \<Rightarrow> error + flt list \<times> nat list" where
  "populateBuffers verts texts faces =
     and_then (populate_loop verts texts faces ([], [], []))
       (\<lambda>(VBO, IBO, vertices). Inr (VBO, IBO))"

section \<open>OBJModel: the constructor and getTexture (OBJModel.cpp, lines 30 to 174)\<close>

record obj_model =
  m_Verts :: "flt list"
  m_VertTexts :: "flt list"
  m_VertNorms :: "flt list"
  m_Faces :: "nat list"
  m_MaterialFile :: string
  m_ObjectPath :: string
  obj_VBO :: "flt list"
  obj_IBO :: "nat list"

text \<open>
  The constructor.  \<open>files\<close> is the file system: the lines of the file at a path, and
  \<open>None\<close> when the file cannot be opened.  A file that cannot be opened leaves the
  vectors and \<^verbatim>\<open>m_MaterialFile\<close> empty.
\<close>

definition OBJModel_ctor ::
  "(string \<Rightarrow> error + flt) \<Rightarrow> (string \<Rightarrow> string list option) \<Rightarrow> string \<Rightarrow> error + obj_model" where
  "OBJModel_ctor stof files fileName =
     and_then
       (case files fileName of
          None \<Rightarrow>
            Inr \<lparr>Verts = [], VertNorms = [], VertTexts = [], Faces = [], MaterialFile = []\<rparr>
        | Some lines \<Rightarrow>
            parse_lines stof lines
              \<lparr>Verts = [], VertNorms = [], VertTexts = [], Faces = [], MaterialFile = []\<rparr>)
       (\<lambda>d.
          (let index = dir_index fileName in
             and_then (populateBuffers (Verts d) (VertTexts d) (Faces d)) (\<lambda>(VBO, IBO).
               Inr \<lparr>m_Verts = Verts d, m_VertTexts = VertTexts d, m_VertNorms = VertNorms d,
                    m_Faces = Faces d,
                    m_MaterialFile = substr fileName 0 index @ MaterialFile d,
                    m_ObjectPath = substr fileName 0 index,
                    obj_VBO = VBO, obj_IBO = IBO\<rparr>)))"

text \<open>
  Lines 144 to 169 of \<^verbatim>\<open>getTexture\<close>: the first line whose first chunk is
  \<^verbatim>\<open>map_Kd\<close> and that has a second chunk decides; without one the result is the
  empty string.
\<close>

fun texture_of_lines :: "string \<Rightarrow> string list \<Rightarrow> string" where
  "texture_of_lines objectPath [] = []"
| "texture_of_lines objectPath (line # lines) =
     (case chunks (strip_comment line) of
        first # chunk # _ \<Rightarrow>
          if first = ''map_Kd'' then objectPath @ chunk else texture_of_lines objectPath lines
      | _ \<Rightarrow> texture_of_lines objectPath lines)"

definition getTexture :: "(string \<Rightarrow> string list option) \<Rightarrow> obj_model \<Rightarrow> string" where
  "getTexture files obj =
     (case files (m_MaterialFile obj) of
        None \<Rightarrow> []
      | Some lines \<Rightarrow> texture_of_lines (m_ObjectPath obj) lines)"

section \<open>Notions for stating the properties, and example inputs\<close>

text \<open>
  What the sampling loops keep true of their accumulators: four colour components per
  height written, those of a sample whose \<^verbatim>\<open>alpha\<close> is still 1, and three
  position components per height written.
\<close>

definition sampler_inv :: "nat \<Rightarrow> sampler \<Rightarrow> bool" where
  "sampler_inv sid s \<longleftrightarrow>
     colors s = concat (map (\<lambda>h. vertex_color sid h 1) (heightData s)) \<and>
     length (positions s) = 3 * length (heightData s)"

text \<open>
  Three expression libraries for the examples: one compiles every equation to the
  constant \<open>c\<close>, one compiles nothing and leaves an expression that evaluates to NaN,
  and one compiles every equation to an expression whose evaluation raises.
\<close>

definition compile_const :: "flt \<Rightarrow> string \<Rightarrow> bool \<times> (flt \<Rightarrow> flt \<Rightarrow> flt outcome)" where
  "compile_const c equation = (True, \<lambda>x y. Returns c)"

definition compile_fails :: "string \<Rightarrow> bool \<times> (flt \<Rightarrow> flt \<Rightarrow> flt outcome)" where
  "compile_fails equation = (False, \<lambda>x y. Returns NaN)"

definition compile_raises :: "string \<Rightarrow> bool \<times> (flt \<Rightarrow> flt \<Rightarrow> flt outcome)" where
  "compile_raises equation = (True, \<lambda>x y. Raises)"

text \<open>
  What the body of the inner loop of \<^verbatim>\<open>updateBuffers\<close> pushes for the cell whose first
  corner has the index \<open>c\<close>, when no index wraps around and every read is in range.
\<close>

definition cell_emitted :: "nat \<Rightarrow> real list \<Rightarrow> nat \<Rightarrow> nat list" where
  "cell_emitted n h c =
     (if 0 \<le> h ! c \<and> 0 \<le> h ! (c + 1) \<and> 0 \<le> h ! (c + n) then [c, c + 1, c + n] else []) @
     (if 0 \<le> h ! (c + n + 1) \<and> 0 \<le> h ! (c + 1) \<and> 0 \<le> h ! (c + n)
      then [c + 1, c + n + 1, c + n] else [])"

text \<open>
  What the body of the inner loop of \<^verbatim>\<open>calculateNormals\<close> pushes for the vertex
  \<open>(x, y)\<close>, when no index wraps around and every read is in range.
\<close>

definition normal_emitted :: "nat \<Rightarrow> real list \<Rightarrow> nat \<Rightarrow> nat \<Rightarrow> real list" where
  "normal_emitted n h y x =
     (if x = 0 \<or> n - 1 \<le> x \<or> y = 0 \<or> n - 1 \<le> y then [0, 0, 0]
      else if h ! ((x - 1) + y * n) < 0 \<or> h ! ((x + 1) + y * n) < 0 then [0, 0, 0]
      else if h ! (x + (y - 1) * n) < 0 \<or> h ! (x + (y + 1) * n) < 0 then [0, 0, 0]
      else
        (case normalize_vec
                (cross
                   (0, central_difference n (world_z (h ! (x + (y - 1) * n)))
                         (world_z (h ! (x + (y + 1) * n))), 1)
                   (1, central_difference n (world_z (h ! ((x - 1) + y * n)))
                         (world_z (h ! ((x + 1) + y * n))), 0)) of
           (nx, ny, nz) \<Rightarrow> [nx, ny, nz]))"

text \<open>
  The words of the specification: the central differences at the vertex with the index
  \<open>c\<close>, from the heights of its neighbours in world units and twice the grid step
  \<open>10 / (n - 1)\<close>; and the normal stored for the vertex \<open>c\<close> in the vector of
  normals.
\<close>

definition dz_dx :: "nat \<Rightarrow> real list \<Rightarrow> nat \<Rightarrow> real" where
  "dz_dx n h c = (world_z (h ! (c + 1)) - world_z (h ! (c - 1))) / (2 * (10 / (real n - 1)))"

definition dz_dy :: "nat \<Rightarrow> real list \<Rightarrow> nat \<Rightarrow> real" where
  "dz_dy n h c = (world_z (h ! (c + n)) - world_z (h ! (c - n))) / (2 * (10 / (real n - 1)))"

definition normal_of :: "real list \<Rightarrow> nat \<Rightarrow> vec3" where
  "normal_of ns c = (ns ! (c * 3), ns ! (c * 3 + 1), ns ! (c * 3 + 2))"

text \<open>
  The heights of the surface \<open>z = x\<close> on a grid of 3 by 3: 0.45, 0.5 and 0.55 in every
  row.
\<close>

definition slope_grid :: "real list" where
  "slope_grid = [9 / 20, 1 / 2, 11 / 20, 9 / 20, 1 / 2, 11 / 20, 9 / 20, 1 / 2, 11 / 20]"






definition keys_equal :: "flt list \<Rightarrow> flt list \<Rightarrow> bool" where
  "keys_equal a b \<longleftrightarrow> list_all2 feq a b"



text \<open>
  For the examples: a stand-in for \<^verbatim>\<open>std::stof\<close> that reads integers only, and the
  arrays of a square of four vertices with two triangular faces that share an edge.
\<close>

definition stof_int :: "string \<Rightarrow> error + flt" where
  "stof_int s = and_then (stoi s) (\<lambda>v. Inr (Fin (real_of_int v)))"




text \<open>A polygon file with one triangle whose index groups have no texture index.\<close>

definition tri_obj :: "string list" where
  "tri_obj = [''# one triangle, no texture coordinates'', ''v 0 0 0'', ''v 1 0 0'', ''v 0 1 0'',
     ''vn 0 0 1'', ''f 1//1 2//1 3//1'']"

definition tri_files :: "string \<Rightarrow> string list option" where
  "tri_files path = (if path = ''tri.obj'' then Some tri_obj else None)"

text \<open>
  A directory with a polygon file that names the material library \<^verbatim>\<open>grid.mtl\<close>, and
  that library with a diffuse map.
\<close>

definition grid_files :: "string \<Rightarrow> string list option" where
  "grid_files path =
     (if path = ''grid.obj'' then Some [''mtllib grid.mtl'']
      else if path = ''grid.mtl'' then Some [''newmtl grid'', ''map_Kd grid.png'']
      else None)"

text \<open>
  How often a loop \<^verbatim>\<open>for (v = x; v <= 5.001; v = step v)\<close> runs its body when
  nothing fails, counted up to \<open>k\<close> passes: the result is less than \<open>k\<close> when the
  loop ends within \<open>k\<close> passes, and it is then the number of passes.
\<close>

fun passes :: "(flt \<Rightarrow> flt) \<Rightarrow> nat \<Rightarrow> flt \<Rightarrow> nat" where
  "passes step 0 x = 0"
| "passes step (Suc k) x =
     (if fle x (Fin (5001 / 1000)) then Suc (passes step k (step x)) else 0)"

text \<open>
  The number of passes in closed form when the update adds the real number \<open>d > 0\<close>
  with no rounding and the variable starts at \<open>a\<close>: one pass for each of the values
  \<open>a\<close>, \<open>a + d\<close>, \<open>a + 2 d\<close>, ... that are at most 5.001.
\<close>

definition axis_count :: "real \<Rightarrow> real \<Rightarrow> nat" where
  "axis_count d a = nat (\<lfloor>(5001 / 1000 - a) / d\<rfloor> + 1)"

section \<open>Sequencing, collected loops and checked reads\<close>

lemma and_then_Inr_iff:
  "and_then m f = Inr r \<longleftrightarrow> (\<exists>v. m = Inr v \<and> f v = Inr r)"
  by (cases m) (auto simp: and_then_def)

lemma and_then_Inr [simp]: "and_then (Inr v) f = f v"
  by (simp add: and_then_def)

lemma and_then_Inl [simp]: "and_then (Inl e) f = Inl e"
  by (simp add: and_then_def)

lemma collect_pure:
  "(\<And>x. x \<in> set xs \<Longrightarrow> f x = Inr (g x)) \<Longrightarrow> collect f xs = Inr (concat (map g xs))"
  by (induction xs) auto

lemma collect_Inr:
  "collect f xs = Inr r \<Longrightarrow>
     \<exists>g. (\<forall>x \<in> set xs. f x = Inr (g x)) \<and> r = concat (map g xs)"
proof (induction xs arbitrary: r)
  case Nil
  then show ?case by simp
next
  case (Cons a xs)
  from Cons.prems obtain ys zs where a: "f a = Inr ys" and r: "collect f xs = Inr zs"
    and res: "r = ys @ zs"
    by (auto simp: and_then_Inr_iff)
  from Cons.IH [OF r] obtain g where g: "\<forall>x \<in> set xs. f x = Inr (g x)" "zs = concat (map g xs)"
    by blast
  let ?g = "\<lambda>x. if x = a then ys else g x"
  have "\<forall>x \<in> set (a # xs). f x = Inr (?g x)" using a g by auto
  moreover have "concat (map ?g xs) = concat (map g xs)"
    using g a by (intro arg_cong [where f = concat] map_cong) auto
  ultimately show ?case using res g(2)
    by (intro exI [of _ ?g]) auto
qed

lemma concat_fixed_nth:
  assumes "\<And>x. x \<in> set xs \<Longrightarrow> length (g x) = k" and "i < length xs" and "j < k"
  shows "concat (map g xs) ! (i * k + j) = g (xs ! i) ! j"
  using assms
proof (induction xs arbitrary: i)
  case Nil
  then show ?case by simp
next
  case (Cons a xs)
  show ?case
  proof (cases i)
    case 0
    with Cons.prems show ?thesis by (simp add: nth_append)
  next
    case (Suc i')
    with Cons.prems have "concat (map g xs) ! (i' * k + j) = g (xs ! i') ! j"
      by (intro Cons.IH) auto
    with Suc Cons.prems(1) [of a] show ?thesis
      by (simp add: nth_append add.assoc)
  qed
qed

lemma concat_fixed_length:
  "(\<And>x. x \<in> set xs \<Longrightarrow> length (g x) = k) \<Longrightarrow> length (concat (map g xs)) = length xs * k"
  by (induction xs) auto

lemma rd_Inr_iff: "rd xs i = Inr v \<longleftrightarrow> i < length xs \<and> v = xs ! i"
  by (auto simp: rd_def)

lemma rds_Inr:
  "rds xs js = Inr ws \<Longrightarrow> ws = map (\<lambda>j. xs ! j) js \<and> (\<forall>j \<in> set js. j < length xs)"
proof (induction js arbitrary: ws)
  case Nil
  then show ?case by (simp add: rds_def)
next
  case (Cons j js)
  then show ?case
    by (auto simp: rds_def and_then_Inr_iff rd_Inr_iff)
qed

lemma vertex_record_Inr:
  assumes "vertex_record ps ns cs i = Inr r"
  shows "r = [ps ! (i * 3), ps ! (i * 3 + 1), ps ! (i * 3 + 2),
              Fin (ns ! (i * 3)), Fin (ns ! (i * 3 + 1)), Fin (ns ! (i * 3 + 2)),
              Fin (cs ! (i * 4)), Fin (cs ! (i * 4 + 1)), Fin (cs ! (i * 4 + 2)),
              Fin (cs ! (i * 4 + 3)), Fin 0, Fin 0]
         \<and> i * 3 + 2 < length ps \<and> i * 3 + 2 < length ns \<and> i * 4 + 3 < length cs"
  using assms
  by (auto simp: vertex_record_def and_then_Inr_iff dest!: rds_Inr)

section \<open>Properties of the sampled cell\<close>

lemma sample_cell_height:
  "fst (sample_cell z lh) =
     (if isnan z \<or> fless z (Fin (- z_bound)) \<or> fless (Fin z_bound) z then - 1
      else (case z of Fin r \<Rightarrow> (r + z_bound) / (z_bound * 2) | _ \<Rightarrow> - 1))"
  by (simp add: sample_cell_def try_block_def split: flt.splits)

lemma sample_cell_alpha: "fst (snd (sample_cell z lh)) = 1"
  by (simp add: sample_cell_def try_block_def split: flt.splits)

lemma sample_step_Inr:
  assumes "sample_step ev alloc sid x y s = Inr s'"
  shows "\<exists>z. ev x y = Returns z \<and> length (heightData s) < alloc \<and>
     heightData s' = heightData s @ [fst (sample_cell z (last_height s))] \<and>
     positions s' = positions s @
       [x, Fin (clamp (world_z (fst (sample_cell z (last_height s)))) (- z_bound) z_bound), y] \<and>
     colors s' = colors s @ vertex_color sid (fst (sample_cell z (last_height s))) 1"
proof -
  from assms obtain z where z: "ev x y = Returns z"
    by (auto simp: sample_step_def split: outcome.splits if_splits)
  obtain h lh where c: "sample_cell z (last_height s) = (h, 1, lh)"
    using sample_cell_alpha [of z "last_height s"] by (cases "sample_cell z (last_height s)") auto
  from assms z c show ?thesis
    by (auto simp: sample_step_def world_z_def split: if_splits)
qed

text \<open>
  Claim C4.  When the expression evaluates to \<open>z\<close> at a grid sample, the height stored
  for the sample is the sentinel -1 (a value below 0) if \<open>z\<close> is NaN, below \<open>-B\<close> or
  above \<open>B\<close>, with \<open>B = 50\<close>; whatever the previous sample's height
  (\<^verbatim>\<open>last_height\<close>) was, a sample above the bound gets -1 and no copy of it.
  Otherwise \<open>z\<close> is finite and the stored height is \<open>(z + B) / (2 B)\<close>, which lies
  between 0 and 1.
\<close>

theorem sample_height_policy:
  assumes "ev x y = Returns z" and "sample_step ev alloc sid x y s = Inr s'"
  shows "\<exists>h. heightData s' = heightData s @ [h] \<and>
     (isnan z \<or> fless z (Fin (- z_bound)) \<or> fless (Fin z_bound) z \<longrightarrow> h = - 1 \<and> h < 0) \<and>
     (\<not> (isnan z \<or> fless z (Fin (- z_bound)) \<or> fless (Fin z_bound) z) \<longrightarrow>
        (\<exists>r. z = Fin r \<and> h = (r + z_bound) / (2 * z_bound) \<and> 0 \<le> h \<and> h \<le> 1))"
proof -
  from sample_step_Inr [OF assms(2)] assms(1)
  have hd: "heightData s' = heightData s @ [fst (sample_cell z (last_height s))]"
    by auto
  show ?thesis
  proof (cases z)
    case (Fin r)
    then show ?thesis using hd
      by (auto simp: sample_cell_height z_bound_def)
  qed (use hd in \<open>auto simp: sample_cell_height\<close>)
qed

text \<open>
  A sample above the bound (\<open>z = 60\<close>) after a valid sample of height 0.45: the stored
  height is -1, not 0.45.
\<close>

theorem sample_height_policy_witness:
  "\<exists>s'. sample_step (\<lambda>x y. Returns (Fin 60)) 4 1 (Fin (- 5)) (Fin (- 5))
           \<lparr>heightData = [9 / 20], positions = [], colors = [], last_height = 9 / 20\<rparr> = Inr s' \<and>
        heightData s' = [9 / 20, - 1]"
proof -
  let ?s = "\<lparr>heightData = [9 / 20], positions = [], colors = [], last_height = 9 / 20\<rparr>"
  obtain s' where step:
    "sample_step (\<lambda>x y. Returns (Fin 60)) 4 1 (Fin (- 5)) (Fin (- 5)) ?s = Inr s'"
    by (simp add: sample_step_def sample_cell_def try_block_def z_bound_def)
  from sample_height_policy [of "\<lambda>x y. Returns (Fin 60)" "Fin (- 5)" "Fin (- 5)" "Fin 60", OF _ step]
  have "heightData s' = [9 / 20, - 1]"
    by (auto simp: z_bound_def)
  with step show ?thesis by blast
qed

section \<open>Invariants of the sampling loops and the layout of the vertex buffer\<close>

lemma x_loop_preserves:
  "x_loop ev alloc sid stp y x s = Inr s' \<Longrightarrow>
   (\<And>x y s s'. sample_step ev alloc sid x y s = Inr s' \<Longrightarrow> P s \<Longrightarrow> P s') \<Longrightarrow> P s \<Longrightarrow> P s'"
proof (induction ev alloc sid stp y x s rule: x_loop.induct)
  case (1 ev alloc sid stp y x s)
  show ?case
  proof (cases "fle x (Fin (5001 / 1000))")
    case False
    with "1.prems" show ?thesis by (simp add: x_loop.simps)
  next
    case True
    with "1.prems"(1) obtain s1 where s1: "sample_step ev alloc sid x y s = Inr s1"
      and rest: "x_loop ev alloc sid stp y (stp x) s1 = Inr s'"
      by (auto simp: x_loop.simps [of ev alloc sid stp y x s] split: sum.splits)
    from "1.prems"(2) [OF s1 "1.prems"(3)] have "P s1" .
    with "1.IH" [OF True s1 rest] "1.prems"(2) show ?thesis
      by blast
  qed
qed

lemma y_loop_preserves:
  "y_loop ev alloc sid stp y s = Inr s' \<Longrightarrow>
   (\<And>x y s s'. sample_step ev alloc sid x y s = Inr s' \<Longrightarrow> P s \<Longrightarrow> P s') \<Longrightarrow> P s \<Longrightarrow> P s'"
proof (induction ev alloc sid stp y s rule: y_loop.induct)
  case (1 ev alloc sid stp y s)
  show ?case
  proof (cases "fle y (Fin (5001 / 1000))")
    case False
    with "1.prems" show ?thesis by (simp add: y_loop.simps)
  next
    case True
    with "1.prems"(1) obtain s1 where s1: "x_loop ev alloc sid stp y (Fin (- 5)) s = Inr s1"
      and rest: "y_loop ev alloc sid stp (stp y) s1 = Inr s'"
      by (auto simp: y_loop.simps [of ev alloc sid stp y s] split: sum.splits)
    have "P s1"
      by (rule x_loop_preserves [of ev alloc sid stp y "Fin (- 5)" s s1 P, OF s1 _ "1.prems"(3)])
         (rule "1.prems"(2))
    with "1.IH" [OF True s1 rest] "1.prems"(2) show ?thesis
      by blast
  qed
qed

lemma sample_step_inv:
  "sample_step ev alloc sid x y s = Inr s' \<Longrightarrow> sampler_inv sid s \<Longrightarrow> sampler_inv sid s'"
  by (drule sample_step_Inr) (auto simp: sampler_inv_def)

lemma vertex_color_length: "length (vertex_color sid h a) = 4"
  by (simp add: vertex_color_def)

lemma vertex_color_alpha: "vertex_color sid h 1 ! 3 = 9 / 10"
  by (simp add: vertex_color_def clamp_def)

lemma Graph_ctor_Inr:
  assumes "Graph_ctor advance compile equation n sid = Inr g"
  shows "\<exists>s. y_loop (snd (compile equation)) (u32 (n * n)) sid (advance n) (Fin (- 5))
               \<lparr>heightData = [], positions = [], colors = [], last_height = 1 / 2\<rparr> = Inr s \<and>
             m_heightData g = heightData s \<and> m_positions g = positions s \<and> m_colors g = colors s \<and>
             calculateNormals n (m_heightData g) = Inr (m_normals g) \<and>
             build_VBO (m_positions g) (m_normals g) (m_colors g) = Inr (m_VBO g) \<and>
             build_IBO n (m_heightData g) = Inr (m_IBO g) \<and> m_dimension g = n"
  using assms
  by (auto simp: Graph_ctor_def updateBuffers_def and_then_Inr_iff split: prod.splits)

lemma Graph_ctor_inv:
  assumes "Graph_ctor advance compile equation n sid = Inr g"
  shows "m_colors g = concat (map (\<lambda>h. vertex_color sid h 1) (m_heightData g))"
    and "length (m_positions g) = 3 * length (m_heightData g)"
proof -
  from Graph_ctor_Inr [OF assms] obtain s where
    s: "y_loop (snd (compile equation)) (u32 (n * n)) sid (advance n) (Fin (- 5))
               \<lparr>heightData = [], positions = [], colors = [], last_height = 1 / 2\<rparr> = Inr s"
    and eq: "m_heightData g = heightData s" "m_positions g = positions s" "m_colors g = colors s"
    by blast
  have "sampler_inv sid s"
    by (rule y_loop_preserves [of _ _ sid _ _ _ s "sampler_inv sid", OF s])
       (simp_all add: sample_step_inv, simp add: sampler_inv_def)
  with eq show "m_colors g = concat (map (\<lambda>h. vertex_color sid h 1) (m_heightData g))"
    and "length (m_positions g) = 3 * length (m_heightData g)"
    by (simp_all add: sampler_inv_def)
qed

lemma build_VBO_Inr:
  assumes "build_VBO ps ns cs = Inr vbo"
  shows "length vbo = 12 * (length ps div 3)"
    and "\<And>i j. i < length ps div 3 \<Longrightarrow> j < 12 \<Longrightarrow> vbo ! (i * 12 + j) =
       [ps ! (i * 3), ps ! (i * 3 + 1), ps ! (i * 3 + 2),
        Fin (ns ! (i * 3)), Fin (ns ! (i * 3 + 1)), Fin (ns ! (i * 3 + 2)),
        Fin (cs ! (i * 4)), Fin (cs ! (i * 4 + 1)), Fin (cs ! (i * 4 + 2)),
        Fin (cs ! (i * 4 + 3)), Fin 0, Fin 0] ! j"
    and "\<And>i. i < length ps div 3 \<Longrightarrow> i * 3 + 2 < length ns \<and> i * 4 + 3 < length cs"
proof -
  from assms obtain g where g: "\<forall>i \<in> set [0..<length ps div 3]. vertex_record ps ns cs i = Inr (g i)"
    and vbo: "vbo = concat (map g [0..<length ps div 3])"
    unfolding build_VBO_def by (blast dest: collect_Inr)
  have len: "\<And>i. i \<in> set [0..<length ps div 3] \<Longrightarrow> length (g i) = 12"
    using g by (auto dest!: vertex_record_Inr bspec)
  show "length vbo = 12 * (length ps div 3)"
    unfolding vbo using concat_fixed_length [of "[0..<length ps div 3]" g 12, OF len] by simp
  show "\<And>i. i < length ps div 3 \<Longrightarrow> i * 3 + 2 < length ns \<and> i * 4 + 3 < length cs"
    using g by (auto dest!: vertex_record_Inr bspec)
  fix i j assume i: "i < length ps div 3" and j: "j < (12::nat)"
  from g i have "vertex_record ps ns cs i = Inr (g i)" by simp
  from vertex_record_Inr [OF this] have gi: "g i = [ps ! (i * 3), ps ! (i * 3 + 1), ps ! (i * 3 + 2),
        Fin (ns ! (i * 3)), Fin (ns ! (i * 3 + 1)), Fin (ns ! (i * 3 + 2)),
        Fin (cs ! (i * 4)), Fin (cs ! (i * 4 + 1)), Fin (cs ! (i * 4 + 2)),
        Fin (cs ! (i * 4 + 3)), Fin 0, Fin 0]" by simp
  have "vbo ! (i * 12 + j) = g ([0..<length ps div 3] ! i) ! j"
    unfolding vbo using i j by (intro concat_fixed_nth len) auto
  with i gi show "vbo ! (i * 12 + j) =
       [ps ! (i * 3), ps ! (i * 3 + 1), ps ! (i * 3 + 2),
        Fin (ns ! (i * 3)), Fin (ns ! (i * 3 + 1)), Fin (ns ! (i * 3 + 2)),
        Fin (cs ! (i * 4)), Fin (cs ! (i * 4 + 1)), Fin (cs ! (i * 4 + 2)),
        Fin (cs ! (i * 4 + 3)), Fin 0, Fin 0] ! j" by simp
qed

lemmas graph_eval =
  Graph_ctor_def y_loop.simps x_loop.simps sample_step_def sample_cell_def try_block_def
  z_bound_def u32_def grid_step_def exact_advance_def calculateNormals_def normal_at_def
  dim_minus_1_def updateBuffers_def build_VBO_def build_IBO_def vertex_record_def rds_def
  rd_def int_index_def cell_indices_def corners_valid_def vertex_color_def yellowTint_def
  clamp_def upt_rec

text \<open>
  Claim C10.  In every mesh that the constructor builds (so no evaluation failed), the
  alpha component of every vertex is exactly 0.9, the nominal 1.0 less the deduction of
  0.1 that every sample gets, so no vertex is fully opaque; and when the surface identity
  is neither 1 nor 2 (0 and the values from 3 up included), the colour of every vertex is
  in the red channel only: red is \<open>1 - yellowTint height\<close>, green and blue are 0.
\<close>

theorem vertex_alpha_and_channel:
  assumes "Graph_ctor advance compile equation n sid = Inr g" and "i < length (m_heightData g)"
  shows "length (m_VBO g) = 12 * length (m_heightData g) \<and>
         m_VBO g ! (i * 12 + 9) = Fin (9 / 10) \<and> m_VBO g ! (i * 12 + 9) \<noteq> Fin 1 \<and>
         (sid \<noteq> 1 \<and> sid \<noteq> 2 \<longrightarrow>
            m_VBO g ! (i * 12 + 6) = Fin (1 - yellowTint (m_heightData g ! i)) \<and>
            m_VBO g ! (i * 12 + 7) = Fin 0 \<and> m_VBO g ! (i * 12 + 8) = Fin 0)"
proof -
  let ?h = "m_heightData g"
  from Graph_ctor_Inr [OF assms(1)]
  have vbo: "build_VBO (m_positions g) (m_normals g) (m_colors g) = Inr (m_VBO g)"
    by blast
  note inv = Graph_ctor_inv [OF assms(1)]
  have i3: "i < length (m_positions g) div 3" using inv(2) assms(2) by simp
  have col: "m_colors g ! (i * 4 + j) = vertex_color sid (?h ! i) 1 ! j" if "j < 4" for j
    unfolding inv(1) using that assms(2)
    by (intro concat_fixed_nth) (auto simp: vertex_color_length)
  have len: "length (m_VBO g) = 12 * length ?h"
    using build_VBO_Inr(1) [OF vbo] inv(2) by simp
  have a: "m_VBO g ! (i * 12 + 9) = Fin (m_colors g ! (i * 4 + 3))"
    using build_VBO_Inr(2) [OF vbo i3, of 9] by simp
  have r: "m_VBO g ! (i * 12 + 6) = Fin (m_colors g ! (i * 4 + 0))"
    using build_VBO_Inr(2) [OF vbo i3, of 6] by simp
  have gr: "m_VBO g ! (i * 12 + 7) = Fin (m_colors g ! (i * 4 + 1))"
    using build_VBO_Inr(2) [OF vbo i3, of 7] by simp
  have b: "m_VBO g ! (i * 12 + 8) = Fin (m_colors g ! (i * 4 + 2))"
    using build_VBO_Inr(2) [OF vbo i3, of 8] by simp
  have alpha: "m_VBO g ! (i * 12 + 9) = Fin (9 / 10)"
    using a col [of 3] by (simp add: vertex_color_alpha)
  have red: "m_VBO g ! (i * 12 + 6) = Fin (1 - yellowTint (?h ! i)) \<and>
            m_VBO g ! (i * 12 + 7) = Fin 0 \<and> m_VBO g ! (i * 12 + 8) = Fin 0"
    if "sid \<noteq> 1" "sid \<noteq> 2"
    using that r gr b col [of 0] col [of 1] col [of 2] by (simp add: vertex_color_def)
  from len alpha red show ?thesis by simp
qed

text \<open>The constant surface \<open>z = 0\<close> on a grid of 2 by 2 with the surface identity 0.\<close>

theorem vertex_alpha_and_channel_witness:
  "\<exists>g. Graph_ctor exact_advance (compile_const (Fin 0)) ''0'' 2 0 = Inr g \<and>
       length (m_VBO g) = 48 \<and> m_VBO g ! 9 = Fin (9 / 10) \<and>
       m_VBO g ! 6 = Fin (4 / 5) \<and> m_VBO g ! 7 = Fin 0 \<and> m_VBO g ! 8 = Fin 0"
proof -
  obtain g where g: "Graph_ctor exact_advance (compile_const (Fin 0)) ''0'' 2 0 = Inr g"
    and h: "m_heightData g = [1 / 2, 1 / 2, 1 / 2, 1 / 2]"
    by (simp add: graph_eval compile_const_def)
  from vertex_alpha_and_channel [OF g, of 0] h
  have "length (m_VBO g) = 48 \<and> m_VBO g ! 9 = Fin (9 / 10) \<and>
       m_VBO g ! 6 = Fin (4 / 5) \<and> m_VBO g ! 7 = Fin 0 \<and> m_VBO g ! 8 = Fin 0"
    by (simp add: yellowTint_def)
  with g show ?thesis by blast
qed

text \<open>
  The body of the \<^verbatim>\<open>try\<close> block raises nothing, so a sample never comes from the
  handler; and an evaluation that raises ends the sampling step, and with the first
  sample the constructor, before anything is stored.
\<close>

lemma try_block_returns: "try_block z lh \<noteq> Raises"
  by (simp add: try_block_def)

lemma sample_cell_try:
  "sample_cell z lh = (height, alpha, lh') \<Longrightarrow> try_block z lh = Returns (height, lh') \<and> alpha = 1"
  by (cases "try_block z lh") (auto simp: sample_cell_def try_block_returns)

lemma sample_step_Raises:
  "ev x y = Raises \<Longrightarrow> length (heightData s) < 2 ^ 31 \<Longrightarrow>
     sample_step ev alloc sid x y s = Inl UncaughtException"
  by (simp add: sample_step_def)

lemma Graph_ctor_Raises:
  assumes "snd (compile equation) (Fin (- 5)) (Fin (- 5)) = Raises"
  shows "Graph_ctor advance compile equation n sid = Inl UncaughtException"
proof -
  obtain flag ev where ce: "compile equation = (flag, ev)" by (cases "compile equation")
  with assms have ev: "ev (Fin (- 5)) (Fin (- 5)) = Raises" by simp
  let ?init = "\<lparr>heightData = [], positions = [], colors = [], last_height = 1 / 2\<rparr>"
  have "sample_step ev (u32 (n * n)) sid (Fin (- 5)) (Fin (- 5)) ?init = Inl UncaughtException"
    using ev by (simp add: sample_step_def)
  then have "x_loop ev (u32 (n * n)) sid (advance n) (Fin (- 5)) (Fin (- 5)) ?init =
      Inl UncaughtException"
    by (simp add: x_loop.simps [of _ _ _ _ _ "Fin (- 5)"])
  then have "y_loop ev (u32 (n * n)) sid (advance n) (Fin (- 5)) ?init = Inl UncaughtException"
    by (simp add: y_loop.simps [of _ _ _ _ "Fin (- 5)"])
  then show ?thesis by (simp add: Graph_ctor_def ce)
qed

text \<open>
  Claim C5, at the failing input.  The evaluation \<^verbatim>\<open>expression.value()\<close> (line 61)
  stands before the \<^verbatim>\<open>try\<close> block (line 66), so the handler of lines 81 to 84 does
  not receive what the evaluator raises: the exception leaves the sampling step and the
  constructor at the first sample, no sample with the height 0.5 is stored, and no mesh
  is built.
\<close>

theorem evaluator_exception_escapes:
  "sample_step (snd (compile_raises ''sqrt(x)'')) 4 1 (Fin (- 5)) (Fin (- 5))
     \<lparr>heightData = [], positions = [], colors = [], last_height = 1 / 2\<rparr> = Inl UncaughtException \<and>
   Graph_ctor exact_advance compile_raises ''sqrt(x)'' 2 1 = Inl UncaughtException"
  by (simp add: graph_eval compile_raises_def)

section \<open>The index buffer of the surface mesh\<close>

lemma not_dvd3: "\<not> 3 dvd Suc 0" "\<not> 3 dvd Suc (Suc 0)"
  by presburger+

lemma dvd3_Suc3: "3 dvd Suc (Suc (Suc n)) \<longleftrightarrow> 3 dvd n"
  by presburger

lemma triangles_append:
  "3 dvd length xs \<Longrightarrow> triangles (xs @ ys) = triangles xs @ triangles ys"
proof (induction xs rule: triangles.induct)
  case (1 a b c rest)
  then show ?case by (simp add: dvd3_Suc3)
qed (simp_all add: not_dvd3)

lemma triangles_concat:
  "(\<And>xs. xs \<in> set xss \<Longrightarrow> 3 dvd length xs) \<Longrightarrow>
     triangles (concat xss) = concat (map triangles xss)"
proof (induction xss)
  case Nil
  then show ?case by simp
next
  case (Cons xs xss)
  then show ?case by (simp add: triangles_append)
qed

lemma length_triangles: "3 dvd length xs \<Longrightarrow> length xs = 3 * length (triangles xs)"
proof (induction xs rule: triangles.induct)
  case (1 a b c rest)
  then show ?case by (simp add: dvd3_Suc3)
qed (simp_all add: not_dvd3)

lemma dvd_length_concat:
  "(\<And>xs. xs \<in> set xss \<Longrightarrow> 3 dvd length xs) \<Longrightarrow> 3 dvd length (concat xss)"
  by (induction xss) simp_all

lemma corners_valid_pure:
  "a < length h \<Longrightarrow> b < length h \<Longrightarrow> c < length h \<Longrightarrow>
     corners_valid h a b c = Inr (0 \<le> h ! a \<and> 0 \<le> h ! b \<and> 0 \<le> h ! c)"
  by (simp add: corners_valid_def rd_def)

lemma grid_bounds:
  assumes "2 \<le> n" "n * n \<le> 2 ^ 32" "x < n - 1" "y < n - 1"
  shows "x + y * n + n + 1 < n * n" and "n < 2 ^ 32" and "dim_minus_1 n = n - 1"
proof -
  from assms(1) obtain m where n: "n = Suc (Suc m)"
    by (metis Suc_le_D numeral_2_eq_2 Suc_le_mono)
  from assms(4) n have "y \<le> m" by simp
  then have yn: "y * n \<le> m * n" by (rule mult_le_mono1)
  have nn: "n * n = m * n + 2 * n" unfolding n by simp
  from assms(3) n have "x \<le> m" by simp
  with yn nn n show "x + y * n + n + 1 < n * n" by linarith
  from assms(1) have "2 * n \<le> n * n" by (rule mult_le_mono1)
  then have "2 * n \<le> 2 ^ 32" using assms(2) by (rule le_trans)
  then show lt: "n < 2 ^ 32" by simp
  have "n + (2 ^ 32 - 1) = (n - 1) + 2 ^ 32" using assms(1) by simp
  then have "dim_minus_1 n = ((n - 1) + 2 ^ 32) mod 2 ^ 32"
    by (simp only: dim_minus_1_def u32_def)
  also have "\<dots> = n - 1" using lt by simp
  finally show "dim_minus_1 n = n - 1" .
qed

lemma cell_indices_pure:
  assumes "2 \<le> n" "n * n \<le> 2 ^ 32" "length h = n * n" "x < n - 1" "y < n - 1"
  shows "cell_indices n h y x = Inr (cell_emitted n h (x + y * n))"
proof -
  note b = grid_bounds [OF assms(1,2,4,5)]
  from b(1) assms(2) have lt: "x + y * n + n + 1 < 2 ^ 32" by linarith
  have u: "u32 (x + y * n) = x + y * n" "u32 (x + y * n + 1) = x + y * n + 1"
    "u32 (x + y * n + n) = x + y * n + n" "u32 (x + y * n + n + 1) = x + y * n + n + 1"
    using lt by (simp_all add: u32_def)
  have r: "x + y * n < length h" "x + y * n + 1 < length h" "x + y * n + n < length h"
    "x + y * n + n + 1 < length h"
    using b(1) assms(3) by simp_all
  show ?thesis
    unfolding cell_indices_def Let_def u
    by (simp only: corners_valid_pure [OF r(1) r(2) r(3)] corners_valid_pure [OF r(4) r(2) r(3)]
          and_then_Inr cell_emitted_def)
qed

lemma build_IBO_pure:
  assumes "2 \<le> n" "n * n \<le> 2 ^ 32" "length h = n * n"
  shows "build_IBO n h =
     Inr (concat (map (\<lambda>y. concat (map (\<lambda>x. cell_emitted n h (x + y * n)) [0..<n - 1])) [0..<n - 1]))"
proof -
  have d: "dim_minus_1 n = n - 1"
  proof -
    from assms(1) have "2 * n \<le> n * n" by (rule mult_le_mono1)
    then have "2 * n \<le> 2 ^ 32" using assms(2) by (rule le_trans)
    then have lt: "n < 2 ^ 32" by simp
    have "n + (2 ^ 32 - 1) = (n - 1) + 2 ^ 32" using assms(1) by simp
    then have "dim_minus_1 n = ((n - 1) + 2 ^ 32) mod 2 ^ 32"
      by (simp only: dim_minus_1_def u32_def)
    also have "\<dots> = n - 1" using lt by simp
    finally show ?thesis .
  qed
  have row: "collect (cell_indices n h y) [0..<n - 1] =
      Inr (concat (map (\<lambda>x. cell_emitted n h (x + y * n)) [0..<n - 1]))" if "y < n - 1" for y
    by (rule collect_pure) (simp add: cell_indices_pure [OF assms _ that])
  show ?thesis
    unfolding build_IBO_def d
    by (rule collect_pure) (use row in auto)
qed

lemma triangles_cell_emitted:
  "triangles (cell_emitted n h c) =
     (if 0 \<le> h ! c \<and> 0 \<le> h ! (c + 1) \<and> 0 \<le> h ! (c + n) then [(c, c + 1, c + n)] else []) @
     (if 0 \<le> h ! (c + n + 1) \<and> 0 \<le> h ! (c + 1) \<and> 0 \<le> h ! (c + n)
      then [(c + 1, c + n + 1, c + n)] else [])"
  by (simp add: cell_emitted_def)

lemma dvd_length_cell_emitted: "3 dvd length (cell_emitted n h c)"
  by (simp add: cell_emitted_def dvd3_Suc3)

lemma triangles_grid:
  "set (triangles (concat (map (\<lambda>y. concat (map (\<lambda>x. cell_emitted n h (x + y * n)) [0..<m])) [0..<m]))) =
     (\<Union>y \<in> {0..<m}. \<Union>x \<in> {0..<m}. set (triangles (cell_emitted n h (x + y * n))))"
proof -
  have row: "3 dvd length (concat (map (\<lambda>x. cell_emitted n h (x + y * n)) [0..<m]))" for y
    by (rule dvd_length_concat) (auto simp: dvd_length_cell_emitted)
  have "triangles (concat (map (\<lambda>x. cell_emitted n h (x + y * n)) [0..<m])) =
      concat (map (\<lambda>x. triangles (cell_emitted n h (x + y * n))) [0..<m])" for y
    by (subst triangles_concat) (auto simp: dvd_length_cell_emitted comp_def)
  moreover have "triangles (concat (map (\<lambda>y. concat (map (\<lambda>x. cell_emitted n h (x + y * n)) [0..<m])) [0..<m])) =
      concat (map (\<lambda>y. triangles (concat (map (\<lambda>x. cell_emitted n h (x + y * n)) [0..<m]))) [0..<m])"
    by (subst triangles_concat) (auto simp: row comp_def)
  ultimately show ?thesis by simp
qed

lemma mem_triangles_cell:
  "t \<in> set (triangles (cell_emitted n h c)) \<longleftrightarrow>
     (t = (c, c + 1, c + n) \<and> 0 \<le> h ! c \<and> 0 \<le> h ! (c + 1) \<and> 0 \<le> h ! (c + n)) \<or>
     (t = (c + 1, c + n + 1, c + n) \<and>
        0 \<le> h ! (c + n + 1) \<and> 0 \<le> h ! (c + 1) \<and> 0 \<le> h ! (c + n))"
  unfolding triangles_cell_emitted by (cases t) auto

lemma mem_triangles_grid:
  "t \<in> set (triangles (concat (map (\<lambda>y. concat (map (\<lambda>x. cell_emitted n h (x + y * n)) [0..<m])) [0..<m]))) \<longleftrightarrow>
     (\<exists>y < m. \<exists>x < m.
        (t = (x + y * n, x + y * n + 1, x + y * n + n) \<and>
           0 \<le> h ! (x + y * n) \<and> 0 \<le> h ! (x + y * n + 1) \<and> 0 \<le> h ! (x + y * n + n)) \<or>
        (t = (x + y * n + 1, x + y * n + n + 1, x + y * n + n) \<and>
           0 \<le> h ! (x + y * n + n + 1) \<and> 0 \<le> h ! (x + y * n + 1) \<and> 0 \<le> h ! (x + y * n + n)))"
proof -
  have "t \<in> set (triangles (concat (map (\<lambda>y. concat (map (\<lambda>x. cell_emitted n h (x + y * n)) [0..<m])) [0..<m]))) \<longleftrightarrow>
     (\<exists>y < m. \<exists>x < m. t \<in> set (triangles (cell_emitted n h (x + y * n))))"
    unfolding triangles_grid UN_iff Bex_def atLeastLessThan_iff by simp
  then show ?thesis
    by (simp only: mem_triangles_cell)
qed

text \<open>
  Claim C2.  On a grid of \<open>n\<close> by \<open>n\<close> heights (\<open>n\<close> at least 2, and small enough
  for \<^verbatim>\<open>unsigned int\<close> indices), for every cell \<open>(x, y)\<close> with \<open>x, y < n - 1\<close> the
  index buffer holds the triangle of the samples \<open>(x, y)\<close>, \<open>(x + 1, y)\<close>, \<open>(x, y + 1)\<close>
  exactly when the heights of these three are at least 0, and the triangle of
  \<open>(x + 1, y)\<close>, \<open>(x + 1, y + 1)\<close>, \<open>(x, y + 1)\<close> exactly when the heights of those three
  are at least 0, each independently of the other; and no triangle of the index buffer
  has a sentinel corner.  The sample \<open>(i, j)\<close> has the index \<open>i + j * n\<close>.
\<close>

theorem triangulation_rule:
  assumes "2 \<le> n" and "n * n \<le> 2 ^ 32" and "length h = n * n" and "x < n - 1" and "y < n - 1"
  shows "\<exists>ibo. build_IBO n h = Inr ibo \<and>
     ((x + y * n, x + y * n + 1, x + y * n + n) \<in> set (triangles ibo) \<longleftrightarrow>
        0 \<le> h ! (x + y * n) \<and> 0 \<le> h ! (x + y * n + 1) \<and> 0 \<le> h ! (x + y * n + n)) \<and>
     ((x + y * n + 1, x + y * n + n + 1, x + y * n + n) \<in> set (triangles ibo) \<longleftrightarrow>
        0 \<le> h ! (x + y * n + n + 1) \<and> 0 \<le> h ! (x + y * n + 1) \<and> 0 \<le> h ! (x + y * n + n)) \<and>
     (\<forall>(a, b, c) \<in> set (triangles ibo). 0 \<le> h ! a \<and> 0 \<le> h ! b \<and> 0 \<le> h ! c)"
proof -
  let ?ibo = "concat (map (\<lambda>y. concat (map (\<lambda>x. cell_emitted n h (x + y * n)) [0..<n - 1])) [0..<n - 1])"
  have ibo: "build_IBO n h = Inr ?ibo"
    by (rule build_IBO_pure [OF assms(1-3)])
  have first: "(x + y * n, x + y * n + 1, x + y * n + n) \<in> set (triangles ?ibo) \<longleftrightarrow>
        0 \<le> h ! (x + y * n) \<and> 0 \<le> h ! (x + y * n + 1) \<and> 0 \<le> h ! (x + y * n + n)"
    (is "?l \<longleftrightarrow> ?r")
  proof
    assume ?l
    then show ?r unfolding mem_triangles_grid using assms(1) by auto
  next
    assume ?r
    then show ?l unfolding mem_triangles_grid using assms(4,5) by blast
  qed
  have second: "(x + y * n + 1, x + y * n + n + 1, x + y * n + n) \<in> set (triangles ?ibo) \<longleftrightarrow>
        0 \<le> h ! (x + y * n + n + 1) \<and> 0 \<le> h ! (x + y * n + 1) \<and> 0 \<le> h ! (x + y * n + n)"
    (is "?l \<longleftrightarrow> ?r")
  proof
    assume ?l
    then show ?r unfolding mem_triangles_grid using assms(1) by auto
  next
    assume ?r
    then show ?l unfolding mem_triangles_grid using assms(4,5) by blast
  qed
  have all: "\<forall>(a, b, c) \<in> set (triangles ?ibo). 0 \<le> h ! a \<and> 0 \<le> h ! b \<and> 0 \<le> h ! c"
    unfolding mem_triangles_grid Ball_def by auto
  from ibo first second all show ?thesis by blast
qed
text \<open>
  A grid of 3 by 3 whose centre sample is a sentinel: in the cell \<open>(0, 0)\<close> the first
  triangle is emitted and its diagonal partner, which has the centre as a corner, is not.
\<close>

theorem triangulation_rule_witness:
  "\<exists>ibo. build_IBO 3 [1 / 2, 1 / 2, 1 / 2, 1 / 2, - 1, 1 / 2, 1 / 2, 1 / 2, 1 / 2] = Inr ibo \<and>
     (0, 1, 3) \<in> set (triangles ibo) \<and> (1, 4, 3) \<notin> set (triangles ibo)"
proof -
  from triangulation_rule [of 3 "[1 / 2, 1 / 2, 1 / 2, 1 / 2, - 1, 1 / 2, 1 / 2, 1 / 2, 1 / 2]" 0 0]
  obtain ibo where
    "build_IBO 3 [1 / 2, 1 / 2, 1 / 2, 1 / 2, - 1, 1 / 2, 1 / 2, 1 / 2, 1 / 2] = Inr ibo"
    "(0, 1, 3) \<in> set (triangles ibo)" "(1, 4, 3) \<notin> set (triangles ibo)"
    by auto
  then show ?thesis by blast
qed

section \<open>The normals of the surface mesh\<close>

lemma grid_index_less: "x < n \<Longrightarrow> y < n \<Longrightarrow> x + y * n < n * (n::nat)"
proof -
  assume x: "x < n" and y: "y < n"
  then have "Suc y \<le> n" by simp
  then have "Suc y * n \<le> n * n" by (rule mult_le_mono1)
  with x show ?thesis by simp
qed

lemma dim_minus_1_eq:
  assumes "2 \<le> n" "n * n \<le> 2 ^ 32"
  shows "dim_minus_1 n = n - 1"
proof -
  from assms(1) have "2 * n \<le> n * n" by (rule mult_le_mono1)
  then have "2 * n \<le> 2 ^ 32" using assms(2) by (rule le_trans)
  then have lt: "n < 2 ^ 32" by simp
  have "n + (2 ^ 32 - 1) = (n - 1) + 2 ^ 32" using assms(1) by simp
  then have "dim_minus_1 n = ((n - 1) + 2 ^ 32) mod 2 ^ 32"
    by (simp only: dim_minus_1_def u32_def)
  also have "\<dots> = n - 1" using lt by simp
  finally show ?thesis .
qed

lemma length_normal_emitted: "length (normal_emitted n h y x) = 3"
  by (simp add: normal_emitted_def split: prod.splits)

lemma normal_at_pure:
  assumes "2 \<le> n" "n * n \<le> 2 ^ 32" "length h = n * n" "x < n" "y < n"
  shows "normal_at n h y x = Inr (normal_emitted n h y x)"
proof (cases "x = 0 \<or> n - 1 \<le> x \<or> y = 0 \<or> n - 1 \<le> y")
  case True
  then show ?thesis
    by (simp add: normal_at_def normal_emitted_def dim_minus_1_eq [OF assms(1,2)])
next
  case False
  then have x: "0 < x" "x + 1 < n" and y: "0 < y" "y + 1 < n" by auto
  have lt1: "(x - 1) + y * n < n * n"
    by (rule grid_index_less) (use x y in simp_all)
  have lt2: "(x + 1) + y * n < n * n"
    by (rule grid_index_less) (use x y in simp_all)
  have lt3: "x + (y - 1) * n < n * n"
    by (rule grid_index_less) (use x y in simp_all)
  have lt4: "x + (y + 1) * n < n * n"
    by (rule grid_index_less) (use x y in simp_all)
  note lt = lt1 lt2 lt3 lt4
  have u: "u32 ((x - 1) + y * n) = (x - 1) + y * n" "u32 ((x + 1) + y * n) = (x + 1) + y * n"
    "u32 (x + (y - 1) * n) = x + (y - 1) * n" "u32 (x + (y + 1) * n) = x + (y + 1) * n"
    using lt assms(2) by (simp_all add: u32_def)
  have r: "rd h ((x - 1) + y * n) = Inr (h ! ((x - 1) + y * n))"
    "rd h ((x + 1) + y * n) = Inr (h ! ((x + 1) + y * n))"
    "rd h (x + (y - 1) * n) = Inr (h ! (x + (y - 1) * n))"
    "rd h (x + (y + 1) * n) = Inr (h ! (x + (y + 1) * n))"
    using lt assms(3) by (simp_all add: rd_def)
  from False have nb: "\<not> (x = 0 \<or> dim_minus_1 n \<le> x \<or> y = 0 \<or> dim_minus_1 n \<le> y)"
    by (simp add: dim_minus_1_eq [OF assms(1,2)])
  show ?thesis
    unfolding normal_at_def normal_emitted_def u r and_then_Inr Let_def
    using False nb by (simp split: prod.splits)
qed

lemma calculateNormals_pure:
  assumes "2 \<le> n" "n * n \<le> 2 ^ 32" "length h = n * n"
  shows "calculateNormals n h =
     Inr (concat (map (\<lambda>y. concat (map (normal_emitted n h y) [0..<n])) [0..<n]))"
proof -
  have row: "collect (normal_at n h y) [0..<n] = Inr (concat (map (normal_emitted n h y) [0..<n]))"
    if "y < n" for y
    by (rule collect_pure) (simp add: normal_at_pure [OF assms _ that])
  show ?thesis
    unfolding calculateNormals_def
    by (rule collect_pure) (use row in auto)
qed

lemma grid_concat_nth:
  assumes "\<And>y x. length (g y x) = k" and "x < n" and "y < m" and "j < k"
  shows "concat (map (\<lambda>y. concat (map (g y) [0..<n])) [0..<m]) ! ((x + y * n) * k + j) = g y x ! j"
proof -
  let ?G = "\<lambda>y. concat (map (g y) [0..<n])"
  have len: "length (?G y) = n * k" for y
    using concat_fixed_length [of "[0..<n]" "g y" k] assms(1) by simp
  have "(x + y * n) * k + j = y * (n * k) + (x * k + j)"
    by (simp add: algebra_simps)
  moreover have "x * k + j < n * k"
  proof -
    from assms(2) have "Suc x * k \<le> n * k" by (intro mult_le_mono1) simp
    with assms(4) show ?thesis by simp
  qed
  ultimately have e: "(x + y * n) * k + j = y * (n * k) + (x * k + j)" and b: "x * k + j < n * k"
    by simp_all
  have "concat (map ?G [0..<m]) ! (y * (n * k) + (x * k + j)) = ?G ([0..<m] ! y) ! (x * k + j)"
    by (rule concat_fixed_nth) (use len assms(3) b in simp_all)
  also have "\<dots> = ?G y ! (x * k + j)" using assms(3) by simp
  also have "\<dots> = g y ([0..<n] ! x) ! j"
    by (rule concat_fixed_nth) (use assms in simp_all)
  also have "\<dots> = g y x ! j" using assms(2) by simp
  finally show ?thesis unfolding e .
qed

lemma grid_concat_length:
  assumes "\<And>y x. length (g y x) = k"
  shows "length (concat (map (\<lambda>y. concat (map (g y) [0..<n])) [0..<m])) = m * (n * k)"
proof -
  have "length (concat (map (g y) [0..<n])) = n * k" for y
    using concat_fixed_length [of "[0..<n]" "g y" k] assms by simp
  then show ?thesis
    using concat_fixed_length [of "[0..<m]" "\<lambda>y. concat (map (g y) [0..<n])" "n * k"] by simp
qed

lemma normalize_cross:
  "normalize_vec (cross (0, py, 1) (1, px, 0)) =
     (- px / sqrt (px * px + 1 + py * py), 1 / sqrt (px * px + 1 + py * py),
      - py / sqrt (px * px + 1 + py * py))"
  by (simp add: normalize_vec_def cross_def Let_def add.commute add.left_commute)

lemma unit_length:
  fixes px py :: real
  shows "(- px / sqrt (px * px + 1 + py * py))\<^sup>2 + (1 / sqrt (px * px + 1 + py * py))\<^sup>2 +
         (- py / sqrt (px * px + 1 + py * py))\<^sup>2 = 1"
proof -
  let ?q = "px * px + 1 + py * py"
  have "0 \<le> px * px" "0 \<le> py * py" by simp_all
  then have pos: "0 < ?q" by linarith
  then have l2: "(sqrt ?q)\<^sup>2 = ?q" by simp
  have "(- px / sqrt ?q)\<^sup>2 + (1 / sqrt ?q)\<^sup>2 + (- py / sqrt ?q)\<^sup>2 =
        (px\<^sup>2 + 1 + py\<^sup>2) / (sqrt ?q)\<^sup>2"
    by (simp only: power_divide add_divide_distrib power2_minus power_one)
  also have "\<dots> = ?q / ?q" unfolding l2 by (simp only: power2_eq_square)
  also have "\<dots> = 1" using pos by simp
  finally show ?thesis .
qed

lemma normal_emitted_cases:
  assumes "x < n" "y < n"
  shows "normal_emitted n h y x =
     (if x = 0 \<or> x = n - 1 \<or> y = 0 \<or> y = n - 1 \<or>
         h ! (x + y * n - 1) < 0 \<or> h ! (x + y * n + 1) < 0 \<or>
         h ! (x + y * n - n) < 0 \<or> h ! (x + y * n + n) < 0
      then [0, 0, 0]
      else (case normalize_vec (cross (0, dz_dy n h (x + y * n), 1) (1, dz_dx n h (x + y * n), 0)) of
              (nx, ny, nz) \<Rightarrow> [nx, ny, nz]))"
proof (cases "x = 0 \<or> x = n - 1 \<or> y = 0 \<or> y = n - 1")
  case True
  then have "x = 0 \<or> n - 1 \<le> x \<or> y = 0 \<or> n - 1 \<le> y" by auto
  then have ne: "normal_emitted n h y x = [0, 0, 0]"
    unfolding normal_emitted_def by (rule if_P)
  have c: "x = 0 \<or> x = n - 1 \<or> y = 0 \<or> y = n - 1 \<or>
         h ! (x + y * n - 1) < 0 \<or> h ! (x + y * n + 1) < 0 \<or>
         h ! (x + y * n - n) < 0 \<or> h ! (x + y * n + n) < 0"
    using True by blast
  show ?thesis by (subst if_P [OF c]) (fact ne)
next
  case False
  then have x: "0 < x" "x < n - 1" and y: "0 < y" "y < n - 1" using assms by auto
  from x(1) obtain x' where x': "x = Suc x'" by (cases x) auto
  from y(1) obtain y' where y': "y = Suc y'" by (cases y) auto
  have i: "(x - 1) + y * n = x + y * n - 1" "(x + 1) + y * n = x + y * n + 1"
    unfolding x' by simp_all
  have j: "x + (y - 1) * n = x + y * n - n" "x + (y + 1) * n = x + y * n + n"
    unfolding y' by simp_all
  have nb: "\<not> (x = 0 \<or> n - 1 \<le> x \<or> y = 0 \<or> n - 1 \<le> y)" using x y by simp
  have cd: "central_difference n a b = (b - a) / (2 * (10 / (real n - 1)))" for a b
    by (simp add: central_difference_def)
  have "normal_emitted n h y x =
     (if h ! (x + y * n - 1) < 0 \<or> h ! (x + y * n + 1) < 0 then [0, 0, 0]
      else if h ! (x + y * n - n) < 0 \<or> h ! (x + y * n + n) < 0 then [0, 0, 0]
      else (case normalize_vec (cross (0, dz_dy n h (x + y * n), 1) (1, dz_dx n h (x + y * n), 0)) of
              (nx, ny, nz) \<Rightarrow> [nx, ny, nz]))"
    unfolding normal_emitted_def if_not_P [OF nb] i j cd dz_dx_def dz_dy_def ..
  also have "\<dots> =
     (if x = 0 \<or> x = n - 1 \<or> y = 0 \<or> y = n - 1 \<or>
         h ! (x + y * n - 1) < 0 \<or> h ! (x + y * n + 1) < 0 \<or>
         h ! (x + y * n - n) < 0 \<or> h ! (x + y * n + n) < 0
      then [0, 0, 0]
      else (case normalize_vec (cross (0, dz_dy n h (x + y * n), 1) (1, dz_dx n h (x + y * n), 0)) of
              (nx, ny, nz) \<Rightarrow> [nx, ny, nz]))"
  proof -
    have c: "(x = 0 \<or> x = n - 1 \<or> y = 0 \<or> y = n - 1 \<or>
         h ! (x + y * n - 1) < 0 \<or> h ! (x + y * n + 1) < 0 \<or>
         h ! (x + y * n - n) < 0 \<or> h ! (x + y * n + n) < 0) \<longleftrightarrow>
        ((h ! (x + y * n - 1) < 0 \<or> h ! (x + y * n + 1) < 0) \<or>
         (h ! (x + y * n - n) < 0 \<or> h ! (x + y * n + n) < 0))"
      using False by blast
    have nest: "(if A then t else if B then t else e) = (if A \<or> B then t else e)"
      for A B and t e :: "real list"
      by simp
    show ?thesis unfolding c nest ..
  qed
  finally show ?thesis .
qed

lemma normal_of_grid:
  assumes "x < n" "y < n"
  shows "normal_of (concat (map (\<lambda>y. concat (map (normal_emitted n h y) [0..<n])) [0..<n])) (x + y * n) =
     (normal_emitted n h y x ! 0, normal_emitted n h y x ! 1, normal_emitted n h y x ! 2)"
proof -
  let ?ns = "concat (map (\<lambda>y. concat (map (normal_emitted n h y) [0..<n])) [0..<n])"
  have e: "?ns ! ((x + y * n) * 3 + j) = normal_emitted n h y x ! j" if "j < 3" for j
    by (rule grid_concat_nth) (use assms that in \<open>simp_all add: length_normal_emitted\<close>)
  from e [of 0] e [of 1] e [of 2] show ?thesis
    by (simp add: normal_of_def)
qed

lemma slope_derivs: "dz_dx 3 slope_grid 4 = 1" "dz_dy 3 slope_grid 4 = 0"
  by (simp_all add: dz_dx_def dz_dy_def slope_grid_def world_z_def z_bound_def)

text \<open>
  Claim C6, as stated, fails: the code takes the cross product of \<open>(0, dz/dy, 1)\<close> with
  \<open>(1, dz/dx, 0)\<close>, in this order.  At the centre of the grid of \<open>z = x\<close> the normal
  stored is \<open>(-1, 1, 0) / sqrt 2\<close>, which points up, and the normalised cross product
  of \<open>(1, dz/dx, 0)\<close> with \<open>(0, dz/dy, 1)\<close> is its opposite.
\<close>

theorem normals_rule_counterexample:
  "\<exists>ns. calculateNormals 3 slope_grid = Inr ns \<and>
     normal_of ns 4 = (- 1 / sqrt 2, 1 / sqrt 2, 0) \<and>
     normalize_vec (cross (1, dz_dx 3 slope_grid 4, 0) (0, dz_dy 3 slope_grid 4, 1)) =
       (1 / sqrt 2, - 1 / sqrt 2, 0) \<and>
     normal_of ns 4 \<noteq>
       normalize_vec (cross (1, dz_dx 3 slope_grid 4, 0) (0, dz_dy 3 slope_grid 4, 1))"
  unfolding slope_derivs
  by (simp add: calculateNormals_def normal_at_def dim_minus_1_def u32_def rd_def slope_grid_def
        world_z_def z_bound_def central_difference_def normalize_vec_def cross_def normal_of_def
        upt_rec Let_def)

text \<open>
  Claim C6, amended.  On a grid of \<open>n\<close> by \<open>n\<close> heights, the normal stored for a vertex
  in the first or last row or column, or with a sentinel as its left, right, lower or
  upper neighbour, is the zero vector.  For every other vertex it is the normalised cross
  product of \<open>(0, dz/dy, 1)\<close> with \<open>(1, dz/dx, 0)\<close>, that is
  \<open>(- dz/dx, 1, - dz/dy)\<close> divided by its length, and has the length 1; the partial
  derivatives are the central differences of the neighbours' heights in world units over
  twice the grid step \<open>10 / (n - 1)\<close>.
\<close>

theorem normals_rule:
  assumes "2 \<le> n" and "n * n \<le> 2 ^ 32" and "length h = n * n" and "x < n" and "y < n"
  shows "\<exists>ns. calculateNormals n h = Inr ns \<and> length ns = 3 * (n * n) \<and>
     (if x = 0 \<or> x = n - 1 \<or> y = 0 \<or> y = n - 1 \<or>
         h ! (x + y * n - 1) < 0 \<or> h ! (x + y * n + 1) < 0 \<or>
         h ! (x + y * n - n) < 0 \<or> h ! (x + y * n + n) < 0
      then normal_of ns (x + y * n) = (0, 0, 0)
      else
        normal_of ns (x + y * n) =
          normalize_vec (cross (0, dz_dy n h (x + y * n), 1) (1, dz_dx n h (x + y * n), 0)) \<and>
        normal_of ns (x + y * n) =
          (- dz_dx n h (x + y * n) /
             sqrt (dz_dx n h (x + y * n) * dz_dx n h (x + y * n) + 1 +
                   dz_dy n h (x + y * n) * dz_dy n h (x + y * n)),
           1 / sqrt (dz_dx n h (x + y * n) * dz_dx n h (x + y * n) + 1 +
                   dz_dy n h (x + y * n) * dz_dy n h (x + y * n)),
           - dz_dy n h (x + y * n) /
             sqrt (dz_dx n h (x + y * n) * dz_dx n h (x + y * n) + 1 +
                   dz_dy n h (x + y * n) * dz_dy n h (x + y * n))) \<and>
        (fst (normal_of ns (x + y * n)))\<^sup>2 + (fst (snd (normal_of ns (x + y * n))))\<^sup>2 +
          (snd (snd (normal_of ns (x + y * n))))\<^sup>2 = 1)"
proof -
  let ?ns = "concat (map (\<lambda>y. concat (map (normal_emitted n h y) [0..<n])) [0..<n])"
  let ?c = "x + y * n"
  let ?px = "dz_dx n h ?c" and ?py = "dz_dy n h ?c"
  let ?l = "sqrt (?px * ?px + 1 + ?py * ?py)"
  have ns: "calculateNormals n h = Inr ?ns"
    by (rule calculateNormals_pure [OF assms(1-3)])
  have len: "length ?ns = 3 * (n * n)"
    using grid_concat_length [of "normal_emitted n h" 3 n n]
    by (simp add: length_normal_emitted mult.commute)
  note nof = normal_of_grid [OF assms(4,5), of h]
  note cases = normal_emitted_cases [OF assms(4,5), of h]
  show ?thesis
  proof (cases "x = 0 \<or> x = n - 1 \<or> y = 0 \<or> y = n - 1 \<or>
         h ! (x + y * n - 1) < 0 \<or> h ! (x + y * n + 1) < 0 \<or>
         h ! (x + y * n - n) < 0 \<or> h ! (x + y * n + n) < 0")
    case True
    have "normal_emitted n h y x = [0, 0, 0]"
      unfolding cases by (rule if_P [OF True])
    with nof have "normal_of ?ns ?c = (0, 0, 0)" by simp
    then have "(if x = 0 \<or> x = n - 1 \<or> y = 0 \<or> y = n - 1 \<or>
         h ! (x + y * n - 1) < 0 \<or> h ! (x + y * n + 1) < 0 \<or>
         h ! (x + y * n - n) < 0 \<or> h ! (x + y * n + n) < 0
      then normal_of ?ns ?c = (0, 0, 0) else Q)" for Q
      by (subst if_P [OF True])
    with ns len show ?thesis by blast
  next
    case False
    have em: "normal_emitted n h y x = [- ?px / ?l, 1 / ?l, - ?py / ?l]"
      unfolding cases if_not_P [OF False] normalize_cross by simp
    with nof have v: "normal_of ?ns ?c = (- ?px / ?l, 1 / ?l, - ?py / ?l)" by simp
    have a: "normal_of ?ns ?c = normalize_vec (cross (0, ?py, 1) (1, ?px, 0))"
      unfolding v normalize_cross ..
    have u: "(fst (normal_of ?ns ?c))\<^sup>2 + (fst (snd (normal_of ?ns ?c)))\<^sup>2 +
          (snd (snd (normal_of ?ns ?c)))\<^sup>2 = 1"
      unfolding v fst_conv snd_conv by (rule unit_length)
    have "(if x = 0 \<or> x = n - 1 \<or> y = 0 \<or> y = n - 1 \<or>
         h ! (x + y * n - 1) < 0 \<or> h ! (x + y * n + 1) < 0 \<or>
         h ! (x + y * n - n) < 0 \<or> h ! (x + y * n + n) < 0
      then P
      else normal_of ?ns ?c = normalize_vec (cross (0, ?py, 1) (1, ?px, 0)) \<and>
           normal_of ?ns ?c = (- ?px / ?l, 1 / ?l, - ?py / ?l) \<and>
           (fst (normal_of ?ns ?c))\<^sup>2 + (fst (snd (normal_of ?ns ?c)))\<^sup>2 +
             (snd (snd (normal_of ?ns ?c)))\<^sup>2 = 1)" for P
      by (subst if_not_P [OF False]) (intro conjI a v u)
    with ns len show ?thesis by blast
  qed
qed

theorem normals_rule_witness:
  "\<exists>ns. calculateNormals 3 slope_grid = Inr ns \<and> length ns = 27 \<and>
     normal_of ns 4 = (- 1 / sqrt 2, 1 / sqrt 2, 0) \<and> normal_of ns 5 = (0, 0, 0)"
proof -
  have l: "length slope_grid = 3 * 3" by (simp add: slope_grid_def)
  have h: "slope_grid ! 3 = 9 / 20" "slope_grid ! 5 = 11 / 20" "slope_grid ! Suc 0 = 1 / 2"
    "slope_grid ! 7 = 1 / 2"
    by (simp_all add: slope_grid_def)
  have i: "(1::nat) + 1 * 3 = 4" "(2::nat) + 1 * 3 = 5" by simp_all
  have "\<exists>ns. calculateNormals 3 slope_grid = Inr ns \<and> length ns = 27 \<and>
     normal_of ns 4 = (- 1 / sqrt 2, 1 / sqrt 2, 0)"
    using normals_rule [of 3 slope_grid 1 1, OF _ _ l, unfolded i]
    by (simp add: h slope_derivs) blast
  then obtain ns where ns: "calculateNormals 3 slope_grid = Inr ns" "length ns = 27"
    and c: "normal_of ns 4 = (- 1 / sqrt 2, 1 / sqrt 2, 0)"
    by blast
  from normals_rule [of 3 slope_grid 2 1, OF _ _ l, unfolded i] ns(1)
  have "normal_of ns 5 = (0, 0, 0)"
    by simp
  with ns c show ?thesis by blast
qed

section \<open>The vertex and index buffers of the polygon model\<close>

lemma feq_sym: "feq a b \<Longrightarrow> feq b a"
  by (cases a; cases b) auto

lemma feq_trans: "feq a b \<Longrightarrow> feq b c \<Longrightarrow> feq a c"
  by (cases a; cases b; cases c) auto

lemma vd_eq_sym: "vd_eq a b \<Longrightarrow> vd_eq b a"
  by (auto simp: vd_eq_def intro: feq_sym)

lemma vd_eq_trans: "vd_eq a b \<Longrightarrow> vd_eq b c \<Longrightarrow> vd_eq a c"
  by (auto simp: vd_eq_def intro: feq_trans)



lemma find_vertex_append:
  "find_vertex es v = Some i \<Longrightarrow> find_vertex (es @ ws) v = Some i"
  by (induction es arbitrary: i) (auto split: if_splits)

lemma find_vertex_new:
  "find_vertex es v = None \<Longrightarrow> vd_eq v v \<Longrightarrow> find_vertex (es @ [v]) v = Some (length es)"
  by (induction es) (auto split: if_splits)

lemma find_vertex_cong:
  "vd_eq a b \<Longrightarrow> find_vertex es a = find_vertex es b"
proof (induction es)
  case Nil
  then show ?case by simp
next
  case (Cons e es)
  have "vd_eq e a \<longleftrightarrow> vd_eq e b"
    using Cons.prems by (blast intro: vd_eq_trans vd_eq_sym)
  with Cons show ?case by simp
qed





lemma feq_same: "feq a a \<longleftrightarrow> a \<noteq> NaN"
  by (cases a) auto

lemma keys_equal_same: "keys_equal a a \<longleftrightarrow> NaN \<notin> set a"
  unfolding keys_equal_def by (induction a) (auto simp: feq_same)








lemma populate_loop_returns:
  "3 dvd length faces \<Longrightarrow>
   (\<And>k. k < length faces div 3 \<Longrightarrow>
      \<exists>v. face_vertex verts texts (faces ! (3 * k)) (faces ! (3 * k + 1)) = Inr v) \<Longrightarrow>
     \<exists>r. populate_loop verts texts faces acc = Inr r"
proof (induction verts texts faces acc rule: populate_loop.induct)
  case (1 verts texts acc)
  show ?case by (cases acc) simp
next
  case (2 verts texts pos tx nrm faces VBO IBO vertices)
  from "2.prems"(2) [of 0] obtain v where v: "face_vertex verts texts pos tx = Inr v"
    by auto
  from "2.prems"(1) have dv: "3 dvd length faces" by (simp add: dvd3_Suc3)
  have rest: "\<exists>v. face_vertex verts texts (faces ! (3 * k)) (faces ! (3 * k + 1)) = Inr v"
    if "k < length faces div 3" for k
  proof -
    have e: "3 * Suc k = Suc (Suc (Suc (3 * k)))" by simp
    from that have "Suc k < length (pos # tx # nrm # faces) div 3" by simp
    from "2.prems"(2) [OF this] show ?thesis unfolding e by simp
  qed
  show ?case
  proof (cases "find_vertex vertices v")
    case None
    from "2.IH"(1) [OF None dv rest] v None show ?thesis by simp
  next
    case (Some ind)
    from "2.IH"(2) [OF Some dv rest] v Some show ?thesis by simp
  qed
qed (simp_all add: not_dvd3)


lemmas obj_eval =
  face_vertex_def rd_def u32_def vd_eq_def vertex_floats_def populateBuffers_def




lemmas parse_eval =
  OBJModel_ctor_def tri_files_def tri_obj_def chunks_def strip_comment_def find_char_def substr_def
  is_space_def stof_int_def stoi_def digit_of_def face_chunk_def minus_one_def to_unsigned_def
  dir_index_def

lemma tri_parse:
  "parse_lines stof_int tri_obj
     \<lparr>Verts = [], VertNorms = [], VertTexts = [], Faces = [], MaterialFile = []\<rparr> =
   Inr \<lparr>Verts = map Fin [0, 0, 0, 1, 0, 0, 0, 1, 0], VertNorms = map Fin [0, 0, 1], VertTexts = [],
      Faces = [0, 4294967295, 0, 1, 4294967295, 0, 2, 4294967295, 0], MaterialFile = []\<rparr>"
  by (simp add: parse_eval)

text \<open>
  Claim C7, at the failing input.  The parser stores 4294967295 (the conversion of -1 to
  \<^verbatim>\<open>unsigned int\<close>) as the texture index of the index group \<^verbatim>\<open>1//1\<close>, and the mesh
  builder, which has no case for this value, reads \<^verbatim>\<open>m_VertTexts\<close> at the index
  4294967294, past the end of the vector: the constructor does not produce a vertex with
  the texture coordinate (0, 0).
\<close>

theorem absent_texture_index:
  "face_chunk ''1//1'' = Inr [0, 4294967295, 0] \<and>
   OBJModel_ctor stof_int tri_files ''tri.obj'' = Inl OutOfBounds"
  by (simp add: parse_eval obj_eval)

section \<open>The material library and the texture of the polygon model\<close>

lemma scan_back_none:
  "k \<le> length s \<Longrightarrow> CHR ''/'' \<notin> set s \<Longrightarrow> scan_back s k = - 1"
proof (induction k)
  case 0
  then show ?case by simp
next
  case (Suc k)
  then have "s ! k \<noteq> CHR ''/''"
    by (metis Suc_le_lessD nth_mem)
  with Suc show ?case by simp
qed

lemma scan_back_last:
  "CHR ''/'' \<notin> set b \<Longrightarrow> j \<le> length b \<Longrightarrow>
     scan_back (d @ CHR ''/'' # b) (Suc (length d) + j) = int (length d) + 1"
proof (induction j)
  case 0
  then show ?case by simp
next
  case (Suc j)
  then have "(d @ CHR ''/'' # b) ! (Suc (length d) + j) = b ! j"
    by (simp add: nth_append)
  moreover from Suc.prems have "b ! j \<noteq> CHR ''/''"
    by (metis Suc_le_lessD nth_mem)
  ultimately show ?case using Suc by simp
qed

lemma object_path_with_separator:
  assumes "CHR ''/'' \<notin> set b"
  shows "substr (d @ CHR ''/'' # b) 0 (dir_index (d @ CHR ''/'' # b)) = d @ [CHR ''/'']"
proof -
  have "dir_index (d @ CHR ''/'' # b) = int (length d) + 1"
    using scan_back_last [OF assms, of "length b" d] by (simp add: dir_index_def)
  moreover have "nat (int (length d) + 1) = Suc (length d)" by simp
  ultimately show ?thesis by (simp add: substr_def)
qed

lemma object_path_without_separator:
  assumes "CHR ''/'' \<notin> set fileName"
  shows "substr fileName 0 (dir_index fileName) = fileName"
  using scan_back_none [OF le_refl assms] by (simp add: dir_index_def substr_def)

lemma getTexture_missing_file:
  "files (m_MaterialFile obj) = None \<Longrightarrow> getTexture files obj = []"
  by (simp add: getTexture_def)

text \<open>
  Claim C9, at the failing input.  For the polygon file \<^verbatim>\<open>grid.obj\<close>, whose path has
  no separator, the prefix is the whole path: the material library is looked up as
  \<^verbatim>\<open>grid.objgrid.mtl\<close> and not as \<^verbatim>\<open>grid.mtl\<close>, so the texture lookup finds no file
  and returns the empty string although \<^verbatim>\<open>grid.mtl\<close> has a diffuse map.
\<close>

theorem material_path_without_separator:
  "\<exists>obj. OBJModel_ctor stof_int grid_files ''grid.obj'' = Inr obj \<and>
     m_MaterialFile obj = ''grid.objgrid.mtl'' \<and> m_ObjectPath obj = ''grid.obj'' \<and>
     getTexture grid_files obj = []"
  by (simp add: OBJModel_ctor_def grid_files_def chunks_def strip_comment_def find_char_def
        substr_def is_space_def dir_index_def populateBuffers_def getTexture_def)

lemma getTexture_example:
  "getTexture grid_files
     \<lparr>m_Verts = [], m_VertTexts = [], m_VertNorms = [], m_Faces = [],
      m_MaterialFile = ''grid.mtl'', m_ObjectPath = [], obj_VBO = [], obj_IBO = []\<rparr> = ''grid.png''"
  by (simp add: grid_files_def getTexture_def chunks_def strip_comment_def find_char_def
        substr_def is_space_def)

section \<open>How many samples the loops take\<close>

lemma nat_succ: "0 \<le> (z::int) \<Longrightarrow> nat (z + 1) = Suc (nat z)"
  by simp

lemma nat_neg: "(z::int) < 0 \<Longrightarrow> nat (z + 1) = 0"
  by simp

lemma axis_count_step:
  assumes "0 < d" "a \<le> 5001 / 1000"
  shows "axis_count d a = Suc (axis_count d (a + d))"
proof -
  let ?q = "(5001 / 1000 - a) / d"
  have "(5001 / 1000 - (a + d)) / d = ?q - 1"
    using assms(1) by (simp add: field_simps)
  then have "axis_count d (a + d) = nat (\<lfloor>?q - 1\<rfloor> + 1)"
    by (simp only: axis_count_def)
  also have "\<dots> = nat \<lfloor>?q\<rfloor>" by simp
  finally have 1: "axis_count d (a + d) = nat \<lfloor>?q\<rfloor>" .
  have "0 \<le> ?q" using assms by simp
  then have "0 \<le> \<lfloor>?q\<rfloor>" by (simp only: zero_le_floor)
  then have "nat (\<lfloor>?q\<rfloor> + 1) = Suc (nat \<lfloor>?q\<rfloor>)" by (rule nat_succ)
  with 1 show ?thesis by (simp only: axis_count_def)
qed

lemma axis_count_done:
  assumes "0 < d" "\<not> a \<le> 5001 / 1000"
  shows "axis_count d a = 0"
proof -
  have "(5001 / 1000 - a) / d < 0" using assms by (simp add: field_simps)
  then have "\<lfloor>(5001 / 1000 - a) / d\<rfloor> < 0" by (simp only: floor_less_zero)
  then show ?thesis unfolding axis_count_def by (rule nat_neg)
qed

lemma passes_exact:
  "0 < d \<Longrightarrow> passes (\<lambda>v. fadd v (Fin d)) k (Fin a) = min k (axis_count d a)"
proof (induction k arbitrary: a)
  case 0
  show ?case by simp
next
  case (Suc k)
  show ?case
  proof (cases "a \<le> 5001 / 1000")
    case True
    from axis_count_step [OF Suc.prems True] Suc.IH [OF Suc.prems, of "a + d"] True
    show ?thesis by simp
  next
    case False
    from axis_count_done [OF Suc.prems False] False show ?thesis by simp
  qed
qed

lemma exact_advance_step:
  "n \<noteq> 1 \<Longrightarrow> exact_advance n = (\<lambda>v. fadd v (Fin (10 / (real n - 1))))"
  by (rule ext) (simp add: exact_advance_def grid_step_def)

lemma x_loop_count:
  "x_loop ev alloc sid stp y x s = Inr s' \<Longrightarrow> passes stp k x < k \<Longrightarrow>
     length (heightData s') = length (heightData s) + passes stp k x"
proof (induction ev alloc sid stp y x s arbitrary: k rule: x_loop.induct)
  case (1 ev alloc sid stp y x s)
  from "1.prems"(2) obtain k' where k: "k = Suc k'" by (cases k) auto
  show ?case
  proof (cases "fle x (Fin (5001 / 1000))")
    case False
    with "1.prems"(1) show ?thesis by (simp add: x_loop.simps k)
  next
    case True
    with "1.prems"(1) obtain s1 where s1: "sample_step ev alloc sid x y s = Inr s1"
      and rest: "x_loop ev alloc sid stp y (stp x) s1 = Inr s'"
      by (auto simp: x_loop.simps [of ev alloc sid stp y x s] split: sum.splits)
    from "1.prems"(2) True have "passes stp k' (stp x) < k'" by (simp add: k)
    from "1.IH" [OF True s1 rest this]
    have "length (heightData s') = length (heightData s1) + passes stp k' (stp x)" .
    with sample_step_length [OF s1] True show ?thesis by (simp add: k)
  qed
qed

lemma y_loop_count:
  "y_loop ev alloc sid stp y s = Inr s' \<Longrightarrow> passes stp k y < k \<Longrightarrow>
   passes stp j (Fin (- 5)) < j \<Longrightarrow>
     length (heightData s') =
       length (heightData s) + passes stp k y * passes stp j (Fin (- 5))"
proof (induction ev alloc sid stp y s arbitrary: k rule: y_loop.induct)
  case (1 ev alloc sid stp y s)
  from "1.prems"(2) obtain k' where k: "k = Suc k'" by (cases k) auto
  show ?case
  proof (cases "fle y (Fin (5001 / 1000))")
    case False
    with "1.prems"(1) show ?thesis by (simp add: y_loop.simps k)
  next
    case True
    with "1.prems"(1) obtain s1 where s1: "x_loop ev alloc sid stp y (Fin (- 5)) s = Inr s1"
      and rest: "y_loop ev alloc sid stp (stp y) s1 = Inr s'"
      by (auto simp: y_loop.simps [of ev alloc sid stp y s] split: sum.splits)
    from "1.prems"(2) True have "passes stp k' (stp y) < k'" by (simp add: k)
    from "1.IH" [OF True s1 rest this "1.prems"(3)]
    have "length (heightData s') =
        length (heightData s1) + passes stp k' (stp y) * passes stp j (Fin (- 5))" .
    with x_loop_count [OF s1 "1.prems"(3)] True show ?thesis by (simp add: k)
  qed
qed

lemma sample_step_Inl:
  "sample_step ev alloc sid x y s = Inl e \<Longrightarrow> ev x y \<noteq> Raises \<Longrightarrow>
     length (heightData s) < 2 ^ 31 \<Longrightarrow> e = HeapOverflow"
  by (auto simp: sample_step_def split: outcome.splits prod.splits if_splits)

lemma x_loop_Inl:
  "x_loop ev alloc sid stp y x s = Inl e \<Longrightarrow> (\<And>x y. ev x y \<noteq> Raises) \<Longrightarrow>
     length (heightData s) \<le> alloc \<Longrightarrow> alloc < 2 ^ 31 \<Longrightarrow> e = HeapOverflow"
proof (induction ev alloc sid stp y x s rule: x_loop.induct)
  case (1 ev alloc sid stp y x s)
  from "1.prems"(1) have g: "fle x (Fin (5001 / 1000))"
    by (auto simp: x_loop.simps [of ev alloc sid stp y x s] split: if_splits)
  show ?case
  proof (cases "sample_step ev alloc sid x y s")
    case (Inl e')
    with "1.prems"(1) g have "e' = e"
      by (simp add: x_loop.simps [of ev alloc sid stp y x s])
    with Inl "1.prems"(2-4) show ?thesis
      by (auto dest!: sample_step_Inl)
  next
    case (Inr s1)
    with "1.prems"(1) g have rest: "x_loop ev alloc sid stp y (stp x) s1 = Inl e"
      by (simp add: x_loop.simps [of ev alloc sid stp y x s])
    from sample_step_length [OF Inr] have "length (heightData s1) \<le> alloc" by simp
    from "1.IH" [OF g Inr rest "1.prems"(2) this "1.prems"(4)] show ?thesis .
  qed
qed

lemma y_loop_Inl:
  "y_loop ev alloc sid stp y s = Inl e \<Longrightarrow> (\<And>x y. ev x y \<noteq> Raises) \<Longrightarrow>
     length (heightData s) \<le> alloc \<Longrightarrow> alloc < 2 ^ 31 \<Longrightarrow> e = HeapOverflow"
proof (induction ev alloc sid stp y s rule: y_loop.induct)
  case (1 ev alloc sid stp y s)
  from "1.prems"(1) have g: "fle y (Fin (5001 / 1000))"
    by (auto simp: y_loop.simps [of ev alloc sid stp y s] split: if_splits)
  have g5: "fle (Fin (- 5)) (Fin (5001 / 1000))" by simp
  show ?case
  proof (cases "x_loop ev alloc sid stp y (Fin (- 5)) s")
    case (Inl e')
    with "1.prems"(1) g have "e' = e"
      by (simp add: y_loop.simps [of ev alloc sid stp y s])
    with Inl x_loop_Inl [of ev alloc sid stp y "Fin (- 5)" s e] "1.prems"(2-4) show ?thesis
      by blast
  next
    case (Inr s1)
    with "1.prems"(1) g have rest: "y_loop ev alloc sid stp (stp y) s1 = Inl e"
      by (simp add: y_loop.simps [of ev alloc sid stp y s])
    from x_loop_length [OF Inr] g5 have "length (heightData s1) \<le> alloc" by blast
    from "1.IH" [OF g Inr rest "1.prems"(2) this "1.prems"(4)] show ?thesis .
  qed
qed

lemma y_loop_bound:
  assumes "y_loop ev alloc sid stp y s = Inr s'" "length (heightData s) \<le> alloc"
  shows "length (heightData s') \<le> alloc"
proof (rule y_loop_preserves [OF assms(1), of "\<lambda>s. length (heightData s) \<le> alloc"])
  fix x y s s'
  assume "sample_step ev alloc sid x y s = Inr s'"
  from sample_step_length [OF this] show "length (heightData s') \<le> alloc" by simp
qed (rule assms(2))

lemma axis_count_10001: "axis_count (1 / 1000) (- 5) = 10002"
  by (simp add: axis_count_def)

text \<open>
  When each loop takes more passes than the grid has rows, the constructor writes past
  the end of \<^verbatim>\<open>m_heightData\<close>, whatever the rounding of the loop variables.
\<close>

lemma Graph_ctor_overflow:
  assumes "passes (advance n) k (Fin (- 5)) < k"
    and "u32 (n * n) < passes (advance n) k (Fin (- 5)) * passes (advance n) k (Fin (- 5))"
    and "u32 (n * n) < 2 ^ 31"
    and "\<forall>x y. snd (compile equation) x y \<noteq> Raises"
  shows "Graph_ctor advance compile equation n sid = Inl HeapOverflow"
proof -
  obtain flag ev where ce: "compile equation = (flag, ev)" by (cases "compile equation")
  with assms(4) have total: "\<And>x y. ev x y \<noteq> Raises" by simp
  let ?init = "\<lparr>heightData = [], positions = [], colors = [], last_height = 1 / 2\<rparr>"
  let ?run = "y_loop ev (u32 (n * n)) sid (advance n) (Fin (- 5)) ?init"
  have "?run = Inl HeapOverflow"
  proof (cases ?run)
    case (Inl e)
    from y_loop_Inl [OF Inl total _ assms(3)] show ?thesis using Inl by simp
  next
    case (Inr s)
    from y_loop_count [OF Inr assms(1) assms(1)]
    have "length (heightData s) =
        passes (advance n) k (Fin (- 5)) * passes (advance n) k (Fin (- 5))"
      by simp
    moreover from y_loop_bound [OF Inr] have "length (heightData s) \<le> u32 (n * n)" by simp
    ultimately show ?thesis using assms(2) by simp
  qed
  then show ?thesis by (simp add: Graph_ctor_def ce)
qed

text \<open>
  Claim C1, at the failing input.  For the grid resolution 10001 the step
  \<open>10 / (n - 1)\<close> is 0.001, the tolerance of the loop guards \<^verbatim>\<open>x <= 5.001\<close>, so each
  loop runs 10002 times: the constructor takes more than \<open>n\<^sup>2\<close> samples and writes past
  the end of \<^verbatim>\<open>m_heightData\<close>, which has \<open>n\<^sup>2\<close> entries; it does not build a vertex
  buffer of \<open>n\<^sup>2\<close> records.  The loop variables are advanced without rounding here.
\<close>

theorem vertex_count_overflow:
  "Graph_ctor exact_advance (compile_const (Fin 0)) ''0'' 10001 1 = Inl HeapOverflow"
proof -
  have cnt: "passes (exact_advance 10001) 10003 (Fin (- 5)) = 10002"
    using passes_exact [of "1 / 1000" 10003 "- 5"]
    by (simp add: exact_advance_step axis_count_10001)
  show ?thesis
    by (rule Graph_ctor_overflow [of _ _ 10003])
       (simp_all add: cnt u32_def compile_const_def)
qed

section \<open>The mesh of a grid whose loops take one pass for each row and column\<close>

text \<open>
  When each loop takes exactly \<open>n\<close> passes, no evaluation raises and \<open>n\<^sup>2\<close> is at
  most \<open>2 ^ 29\<close>, the constructor builds a mesh of \<open>n\<^sup>2\<close> vertices whose index
  buffer holds whole triangles of valid vertex indices.  With no rounding the loops take
  exactly \<open>n\<close> passes when \<open>n\<close> is between 2 and 10000.
\<close>

lemma sample_step_progress:
  "ev x y \<noteq> Raises \<Longrightarrow> length (heightData s) < alloc \<Longrightarrow> length (heightData s) < 2 ^ 31 \<Longrightarrow>
     \<exists>s'. sample_step ev alloc sid x y s = Inr s'"
  by (cases "ev x y") (auto simp: sample_step_def split: prod.splits)

lemma x_loop_progress:
  assumes "\<forall>x y. ev x y \<noteq> Raises" and "alloc \<le> 2 ^ 31"
  shows "passes stp k x < k \<Longrightarrow> length (heightData s) + passes stp k x \<le> alloc \<Longrightarrow>
     \<exists>s'. x_loop ev alloc sid stp y x s = Inr s'"
proof (induction k arbitrary: x s)
  case 0
  then show ?case by simp
next
  case (Suc k)
  show ?case
  proof (cases "fle x (Fin (5001 / 1000))")
    case False
    then show ?thesis by (simp add: x_loop.simps)
  next
    case True
    with Suc.prems have p: "passes stp k (stp x) < k"
      and l: "Suc (length (heightData s) + passes stp k (stp x)) \<le> alloc" by simp_all
    from l assms(2) have l1: "length (heightData s) < alloc"
      and l2: "length (heightData s) < 2 ^ 31" by simp_all
    have e: "ev x y \<noteq> Raises" using assms(1) by simp
    from sample_step_progress [of ev x y s alloc sid, OF e l1 l2]
    obtain s1 where s1: "sample_step ev alloc sid x y s = Inr s1" by blast
    from sample_step_length [OF s1] l
    have "length (heightData s1) + passes stp k (stp x) \<le> alloc" by simp
    from Suc.IH [OF p this] obtain s' where
      "x_loop ev alloc sid stp y (stp x) s1 = Inr s'" by blast
    with s1 True show ?thesis
      by (simp add: x_loop.simps [of ev alloc sid stp y x s])
  qed
qed

lemma y_loop_progress:
  assumes "\<forall>x y. ev x y \<noteq> Raises" and "alloc \<le> 2 ^ 31" and "passes stp j (Fin (- 5)) < j"
  shows "passes stp k y < k \<Longrightarrow>
     length (heightData s) + passes stp k y * passes stp j (Fin (- 5)) \<le> alloc \<Longrightarrow>
     \<exists>s'. y_loop ev alloc sid stp y s = Inr s'"
proof (induction k arbitrary: y s)
  case 0
  then show ?case by simp
next
  case (Suc k)
  let ?c = "passes stp j (Fin (- 5))"
  show ?case
  proof (cases "fle y (Fin (5001 / 1000))")
    case False
    then show ?thesis by (simp add: y_loop.simps)
  next
    case True
    with Suc.prems have p: "passes stp k (stp y) < k"
      and l: "length (heightData s) + (?c + passes stp k (stp y) * ?c) \<le> alloc" by simp_all
    from l have "length (heightData s) + ?c \<le> alloc" by simp
    from x_loop_progress [OF assms(1,2) assms(3) this]
    obtain s1 where s1: "x_loop ev alloc sid stp y (Fin (- 5)) s = Inr s1" by blast
    from x_loop_count [OF s1 assms(3)] l
    have "length (heightData s1) + passes stp k (stp y) * ?c \<le> alloc" by simp
    from Suc.IH [OF p this] obtain s' where
      "y_loop ev alloc sid stp (stp y) s1 = Inr s'" by blast
    with s1 True show ?thesis
      by (simp add: y_loop.simps [of ev alloc sid stp y s])
  qed
qed

lemma axis_count_grid:
  assumes "2 \<le> n" "n \<le> 10000"
  shows "axis_count (10 / (real n - 1)) (- 5) = n"
proof -
  let ?m = "real n - 1"
  have m: "1 \<le> ?m" "?m < 10000" using assms by simp_all
  have q: "(5001 / 1000 - - 5) / (10 / ?m) = ?m + ?m / 10000"
    using m by (simp add: field_simps)
  have "\<lfloor>?m + ?m / 10000\<rfloor> = int n - 1"
  proof (rule floor_unique)
    show "of_int (int n - 1) \<le> ?m + ?m / 10000" using m by simp
    show "?m + ?m / 10000 < of_int (int n - 1) + 1" using m by simp
  qed
  then have "axis_count (10 / ?m) (- 5) = nat (int n - 1 + 1)"
    unfolding axis_count_def q by (rule arg_cong [where f = "\<lambda>z. nat (z + 1)"])
  then show ?thesis by simp
qed

lemma rds3:
  "a < length xs \<Longrightarrow> b < length xs \<Longrightarrow> c < length xs \<Longrightarrow>
     rds xs [a, b, c] = Inr [xs ! a, xs ! b, xs ! c]"
  by (simp add: rds_def rd_def)

lemma rds4:
  "a < length xs \<Longrightarrow> b < length xs \<Longrightarrow> c < length xs \<Longrightarrow> d < length xs \<Longrightarrow>
     rds xs [a, b, c, d] = Inr [xs ! a, xs ! b, xs ! c, xs ! d]"
  by (simp add: rds_def rd_def)

lemma vertex_record_pure:
  assumes "i * 3 + 2 < length ps" "i * 3 + 2 < length ns" "i * 4 + 3 < length cs"
    "i * 4 + 3 < 2 ^ 31"
  shows "\<exists>r. vertex_record ps ns cs i = Inr r"
proof -
  from assms(4) have "i * 3 + 2 < 2 ^ 31" by simp
  with assms show ?thesis
    by (simp add: vertex_record_def int_index_def rds3 rds4)
qed

lemma build_VBO_progress:
  assumes "length ps = 3 * m" "length ns = 3 * m" "length cs = 4 * m" "4 * m \<le> 2 ^ 31"
  shows "\<exists>vbo. build_VBO ps ns cs = Inr vbo"
proof -
  have "\<exists>r. vertex_record ps ns cs i = Inr r" if "i < m" for i
    by (rule vertex_record_pure) (use that assms in simp_all)
  then obtain g where g: "\<And>i. i < m \<Longrightarrow> vertex_record ps ns cs i = Inr (g i)"
    by metis
  have "build_VBO ps ns cs = Inr (concat (map g [0..<length ps div 3]))"
    unfolding build_VBO_def by (rule collect_pure) (use g assms(1) in simp)
  then show ?thesis ..
qed

lemma set_cell_emitted:
  "set (cell_emitted n h c) \<subseteq> {c, c + 1, c + n, c + n + 1}"
  by (auto simp: cell_emitted_def)

lemma Graph_ctor_grid:
  assumes "2 \<le> n" and "n * n \<le> 2 ^ 29" and "passes (advance n) (Suc n) (Fin (- 5)) = n"
    and "\<forall>x y. snd (compile equation) x y \<noteq> Raises"
  shows "\<exists>g. Graph_ctor advance compile equation n sid = Inr g \<and>
     length (m_heightData g) = n * n \<and> length (m_VBO g) = 12 * (n * n) \<and>
     3 dvd length (m_IBO g) \<and> length (m_IBO g) = 3 * length (triangles (m_IBO g)) \<and>
     (\<forall>i \<in> set (m_IBO g). i < n * n)"
proof -
  obtain flag ev where ce: "compile equation = (flag, ev)" by (cases "compile equation")
  with assms(4) have total: "\<forall>x y. ev x y \<noteq> Raises" by simp
  let ?stp = "advance n"
  let ?init = "\<lparr>heightData = [], positions = [], colors = [], last_height = 1 / 2\<rparr>"
  from assms(2) have nn31: "n * n \<le> 2 ^ 31" and nn32: "n * n \<le> 2 ^ 32"
    and nn4: "4 * (n * n) \<le> 2 ^ 31" by simp_all
  from assms(2) have "n * n < 2 ^ 32" by simp
  then have u: "u32 (n * n) = n * n" by (simp add: u32_def)
  from assms(3) have cnt: "passes ?stp (Suc n) (Fin (- 5)) < Suc n" by simp
  have "length (heightData ?init) +
      passes ?stp (Suc n) (Fin (- 5)) * passes ?stp (Suc n) (Fin (- 5)) \<le> n * n"
    unfolding assms(3) by simp
  from y_loop_progress [OF total nn31 cnt cnt this]
  obtain s where s: "y_loop ev (n * n) sid ?stp (Fin (- 5)) ?init = Inr s" by blast
  from y_loop_count [OF s cnt cnt] have lh: "length (heightData s) = n * n"
    unfolding assms(3) by simp
  have inv: "sampler_inv sid s"
    by (rule y_loop_preserves [of _ _ sid _ _ _ s "sampler_inv sid", OF s])
       (simp_all add: sample_step_inv, simp add: sampler_inv_def)
  then have lp: "length (positions s) = 3 * (n * n)" by (simp add: sampler_inv_def lh)
  from inv have "colors s = concat (map (\<lambda>h. vertex_color sid h 1) (heightData s))"
    by (simp add: sampler_inv_def)
  then have lc: "length (colors s) = 4 * (n * n)"
    using concat_fixed_length [of "heightData s" "\<lambda>h. vertex_color sid h 1" 4]
    by (simp add: vertex_color_length lh)
  let ?ns = "concat (map (\<lambda>y. concat (map (normal_emitted n (heightData s) y) [0..<n])) [0..<n])"
  have ns: "calculateNormals n (heightData s) = Inr ?ns"
    by (rule calculateNormals_pure [OF assms(1) nn32 lh])
  have ln: "length ?ns = 3 * (n * n)"
    using grid_concat_length [of "normal_emitted n (heightData s)" 3 n n]
    by (simp add: length_normal_emitted mult.commute)
  from build_VBO_progress [OF lp ln lc nn4]
  obtain vbo where vbo: "build_VBO (positions s) ?ns (colors s) = Inr vbo" by blast
  let ?ibo = "concat (map (\<lambda>y. concat (map (\<lambda>x. cell_emitted n (heightData s) (x + y * n))
      [0..<n - 1])) [0..<n - 1])"
  have ibo: "build_IBO n (heightData s) = Inr ?ibo"
    by (rule build_IBO_pure [OF assms(1) nn32 lh])
  let ?g = "\<lparr>m_dimension = n, m_heightData = heightData s, m_positions = positions s,
      m_colors = colors s, m_normals = ?ns, m_VBO = vbo, m_IBO = ?ibo\<rparr>"
  have g: "Graph_ctor advance compile equation n sid = Inr ?g"
    by (simp add: Graph_ctor_def ce u s ns vbo ibo updateBuffers_def)
  have lv: "length vbo = 12 * (n * n)"
    using build_VBO_Inr(1) [OF vbo] lp by simp
  have "3 dvd length (concat (map (\<lambda>x. cell_emitted n (heightData s) (x + y * n)) [0..<n - 1]))"
    for y
    by (rule dvd_length_concat) (auto simp: dvd_length_cell_emitted)
  then have dv: "3 dvd length ?ibo"
    by (intro dvd_length_concat) auto
  from length_triangles [OF dv] have lt: "length ?ibo = 3 * length (triangles ?ibo)" .
  have bound: "i < n * n" if "i \<in> set ?ibo" for i
  proof -
    from that obtain x y where xy: "x < n - 1" "y < n - 1"
      and i: "i \<in> set (cell_emitted n (heightData s) (x + y * n))"
      by auto
    from grid_bounds(1) [OF assms(1) nn32 xy] have "x + y * n + n + 1 < n * n" .
    with i set_cell_emitted [of n "heightData s" "x + y * n"] show ?thesis by auto
  qed
  from g lh lv dv lt bound show ?thesis by auto
qed

lemma passes_exact_grid:
  assumes "2 \<le> n" "n \<le> 10000"
  shows "passes (exact_advance n) (Suc n) (Fin (- 5)) = n"
proof -
  from assms(1) have "n \<noteq> 1" and "0 < 10 / (real n - 1)" by simp_all
  with passes_exact [of "10 / (real n - 1)" "Suc n" "- 5"] axis_count_grid [OF assms]
  show ?thesis by (simp add: exact_advance_step)
qed

lemma Graph_ctor_grid_exact:
  assumes "2 \<le> n" and "n \<le> 10000" and "\<forall>x y. snd (compile equation) x y \<noteq> Raises"
  shows "\<exists>g. Graph_ctor exact_advance compile equation n sid = Inr g \<and>
     length (m_heightData g) = n * n \<and> length (m_VBO g) = 12 * (n * n) \<and>
     3 dvd length (m_IBO g) \<and> length (m_IBO g) = 3 * length (triangles (m_IBO g)) \<and>
     (\<forall>i \<in> set (m_IBO g). i < n * n)"
proof -
  from assms(2) have "n * n \<le> 10000 * 10000" by (intro mult_le_mono)
  then have "n * n \<le> 2 ^ 29" by simp
  from Graph_ctor_grid [of n exact_advance compile equation sid,
      OF assms(1) this passes_exact_grid [OF assms(1,2)] assms(3)]
  show ?thesis .
qed

section \<open>An equation that does not compile\<close>

text \<open>
  Claim C3, as stated, fails: with an expression library that rejects the equation and
  leaves an expression that evaluates to NaN, the constructor returns a mesh (four
  vertices, every height a sentinel, no triangle) and reports nothing.
\<close>

theorem compile_failure_counterexample:
  "fst (compile_fails ''x +'') = False \<and>
   (\<exists>g. Graph_ctor exact_advance compile_fails ''x +'' 2 1 = Inr g \<and>
      m_heightData g = [- 1, - 1, - 1, - 1] \<and> length (m_VBO g) = 48 \<and> m_IBO g = [])"
  by (simp add: graph_eval compile_fails_def)

text \<open>
  Claim C3, amended.  The constructor ignores whether the equation compiled: it proceeds
  with the expression object that the compile call left, and what it returns is what it
  returns when the same expression object comes with any other compile result.
\<close>

theorem compile_result_ignored:
  "Graph_ctor advance compile equation n sid =
     Graph_ctor advance (\<lambda>e. (flag, snd (compile e))) equation n sid"
  by (simp add: Graph_ctor_def split: prod.splits)

text \<open>A material library without a diffuse map gives the empty string.\<close>

lemma texture_of_lines_none:
  "(\<And>line. line \<in> set lines \<Longrightarrow>
      chunks (strip_comment line) = [] \<or> hd (chunks (strip_comment line)) \<noteq> ''map_Kd'') \<Longrightarrow>
     texture_of_lines objectPath lines = []"
proof (induction lines)
  case Nil
  then show ?case by simp
next
  case (Cons line lines)
  from Cons.prems [of line] have "chunks (strip_comment line) = [] \<or>
      hd (chunks (strip_comment line)) \<noteq> ''map_Kd''" by simp
  moreover have "texture_of_lines objectPath lines = []"
    by (rule Cons.IH) (simp add: Cons.prems)
  ultimately show ?case
    by (auto split: list.splits)
qed

end
